theory Spec2Isabelle
  imports Complex_Main "HOL-Library.AList"
begin

section \<open>Python values and exceptions\<close>

text \<open>
  The exceptions the modelled code can raise. A function that can raise returns a sum:
  \<open>Inl\<close> the exception, \<open>Inr\<close> the value. \<open>NotModelled\<close> is no exception of Python:
  it marks a store that the model of \<^verbatim>\<open>copy.deepcopy\<close> below does not cover.
\<close>

datatype error = IndexError | KeyError | TypeError | UnboundLocalError | NotModelled

definition bindE :: "error + 'a \<Rightarrow> ('a \<Rightarrow> error + 'b) \<Rightarrow> error + 'b" where
  "bindE m f = (case m of Inl e \<Rightarrow> Inl e | Inr x \<Rightarrow> f x)"

text \<open>
  Positional indexing \<^verbatim>\<open>xs[i]\<close> and \<^verbatim>\<open>series.iloc[i]\<close>: a negative position counts
  from the end, a position outside the sequence raises \<^verbatim>\<open>IndexError\<close>.
\<close>

definition iloc :: "'a list \<Rightarrow> int \<Rightarrow> error + 'a" where
  "iloc xs i =
     (if 0 \<le> i \<and> i < int (length xs) then Inr (xs ! nat i)
      else if i < 0 \<and> - int (length xs) \<le> i then Inr (xs ! nat (int (length xs) + i))
      else Inl IndexError)"

text \<open>Subscripting a dictionary: a missing key raises \<^verbatim>\<open>KeyError\<close>.\<close>

definition getitem :: "('k \<times> 'v) list \<Rightarrow> 'k \<Rightarrow> error + 'v" where
  "getitem d k = (case map_of d k of None \<Rightarrow> Inl KeyError | Some v \<Rightarrow> Inr v)"

section \<open>Calendar dates and date offsets\<close>

text \<open>
  The index of a price history holds the dates of daily bars. \<^verbatim>\<open>DateOffset(weeks=-w)\<close> moves
  a date by \<open>7 * w\<close> days, \<^verbatim>\<open>DateOffset(months=-m)\<close> moves the month and keeps the day of the
  month, cut down to the length of the month reached.
\<close>

record date =
  year :: int
  month :: int
  day :: int

definition is_leap :: "int \<Rightarrow> bool" where
  "is_leap y = (y mod 4 = 0 \<and> (y mod 100 \<noteq> 0 \<or> y mod 400 = 0))"

definition days_in_month :: "int \<Rightarrow> int \<Rightarrow> int" where
  "days_in_month y m =
     (if m = 2 then (if is_leap y then 29 else 28)
      else if m = 4 \<or> m = 6 \<or> m = 9 \<or> m = 11 then 30 else 31)"

definition prev_day :: "date \<Rightarrow> date" where
  "prev_day d =
     (if 1 < day d then d\<lparr>day := day d - 1\<rparr>
      else if 1 < month d
        then \<lparr>year = year d, month = month d - 1, day = days_in_month (year d) (month d - 1)\<rparr>
      else \<lparr>year = year d - 1, month = 12, day = 31\<rparr>)"

definition next_day :: "date \<Rightarrow> date" where
  "next_day d =
     (if day d < days_in_month (year d) (month d) then d\<lparr>day := day d + 1\<rparr>
      else if month d < 12 then \<lparr>year = year d, month = month d + 1, day = 1\<rparr>
      else \<lparr>year = year d + 1, month = 1, day = 1\<rparr>)"

definition add_days :: "int \<Rightarrow> date \<Rightarrow> date" where
  "add_days n d = (if 0 \<le> n then (next_day ^^ nat n) d else (prev_day ^^ nat (- n)) d)"

definition weeks_offset :: "int \<Rightarrow> date \<Rightarrow> date" where
  "weeks_offset w d = add_days (7 * w) d"

definition months_offset :: "int \<Rightarrow> date \<Rightarrow> date" where
  "months_offset m d =
     (let t = year d * 12 + (month d - 1) + m; y = t div 12; mo = t mod 12 + 1
      in \<lparr>year = y, month = mo, day = min (day d) (days_in_month y mo)\<rparr>)"

section \<open>Price histories, tenor mappings and the returns frame\<close>

text \<open>
  A closing-price history is a date-indexed table with one column of prices per instrument.
  Prices are floating-point numbers in the source; they are real numbers here, so rounding
  is outside the model.
\<close>

record history =
  h_index :: "date list"
  h_columns :: "(string \<times> real list) list"

definition wf_history :: "history \<Rightarrow> bool" where
  "wf_history h =
     (distinct (h_index h) \<and> distinct (map fst (h_columns h)) \<and>
      list_all (\<lambda>c. length (snd c) = length (h_index h)) (h_columns h))"

text \<open>\<^verbatim>\<open>history[column]\<close>: the series of one instrument.\<close>

definition h_series :: "history \<Rightarrow> string \<Rightarrow> error + real list" where
  "h_series h column = getitem (h_columns h) column"

fun index_of :: "'a \<Rightarrow> 'a list \<Rightarrow> nat option" where
  "index_of x [] = None"
| "index_of x (y # ys) = (if x = y then Some 0 else map_option Suc (index_of x ys))"

text \<open>\<^verbatim>\<open>history.loc[d, column]\<close>: the price at a date; a date not in the index is a \<^verbatim>\<open>KeyError\<close>.\<close>

definition h_loc :: "history \<Rightarrow> date \<Rightarrow> string \<Rightarrow> error + real" where
  "h_loc h d column =
     bindE (h_series h column) (\<lambda>ps.
       case index_of d (h_index h) of
         None \<Rightarrow> Inl KeyError
       | Some i \<Rightarrow> iloc ps (int i))"

text \<open>
  The tenor mappings: the day-counts, the week and month counts with the day-count each
  stands for, and the label of each day-count. The three dictionaries keep their order
  of declaration.
\<close>

record tenor_mappings =
  tm_days :: "int list"
  tm_weeks :: "(int \<times> int) list"
  tm_months :: "(int \<times> int) list"
  tm_labels :: "(int \<times> string) list"

text \<open>
  \<^verbatim>\<open>returns_df\<close>: one row per instrument, one column per tenor label; a column is added the
  first time a cell of it is set, and a cell never set is missing (\<open>None\<close>).
\<close>

record returns_frame =
  rf_index :: "string list"
  rf_columns :: "string list"
  rf_cells :: "string \<times> string \<Rightarrow> real option"

text \<open>\<^verbatim>\<open>returns_df.loc[row, col] = v\<close>, setting with enlargement.\<close>

definition set_loc :: "string \<Rightarrow> string \<Rightarrow> real \<Rightarrow> returns_frame \<Rightarrow> returns_frame" where
  "set_loc row col v rf =
     \<lparr>rf_index = (if row \<in> set (rf_index rf) then rf_index rf else rf_index rf @ [row]),
      rf_columns = (if col \<in> set (rf_columns rf) then rf_columns rf else rf_columns rf @ [col]),
      rf_cells = (rf_cells rf)((row, col) := Some v)\<rparr>"

section \<open>ReturnsHistory.get\_returns\<close>

text \<open>
  The objects \<^verbatim>\<open>get_returns\<close> works on: its two arguments and the local frame it fills.
  Each statement is a step on this state; a step that raises leaves the state as it found it,
  and the exception carries that state.
\<close>

record gr_state =
  st_history :: history
  st_tenor :: tenor_mappings
  st_returns_df :: returns_frame

type_synonym 'a raised = "(error \<times> gr_state) + 'a"

fun for_each :: "('x \<Rightarrow> gr_state \<Rightarrow> gr_state raised) \<Rightarrow> 'x list \<Rightarrow> gr_state \<Rightarrow> gr_state raised" where
  "for_each f [] s = Inr s"
| "for_each f (x # xs) s = (case f x s of Inl es \<Rightarrow> Inl es | Inr s' \<Rightarrow> for_each f xs s')"

text \<open>
  \<^verbatim>\<open>(history[column].iloc[-1] - history[column].iloc[-day-1]) / history[column].iloc[-day-1] * 100\<close>
\<close>

definition offset_return :: "history \<Rightarrow> string \<Rightarrow> int \<Rightarrow> error + real" where
  "offset_return h column d =
     bindE (h_series h column) (\<lambda>ps.
     bindE (iloc ps (- 1)) (\<lambda>p_last.
     bindE (iloc ps (- d - 1)) (\<lambda>p_start.
       Inr ((p_last - p_start) / p_start * 100))))"

text \<open>
  \<^verbatim>\<open>(history.loc[end_date, column] - history.loc[start_date, column])
     / history.loc[start_date, column] * 100\<close>
\<close>

definition calendar_return :: "history \<Rightarrow> date \<Rightarrow> date \<Rightarrow> string \<Rightarrow> error + real" where
  "calendar_return h end_date start_date column =
     bindE (h_loc h end_date column) (\<lambda>p_end.
     bindE (h_loc h start_date column) (\<lambda>p_start.
       Inr ((p_end - p_start) / p_start * 100)))"

text \<open>
  \<^verbatim>\<open>returns_df.loc[column, labels[k]] = v\<close> with \<open>v\<close> the value of the right-hand side: Python
  evaluates the right-hand side first, then the label, then stores.
\<close>

definition store_return :: "string \<Rightarrow> int \<Rightarrow> error + real \<Rightarrow> gr_state \<Rightarrow> error + gr_state" where
  "store_return column k rhs s =
     bindE rhs (\<lambda>v.
     bindE (getitem (tm_labels (st_tenor s)) k) (\<lambda>l.
       Inr (s\<lparr>st_returns_df := set_loc column l v (st_returns_df s)\<rparr>)))"

definition raise_in :: "gr_state \<Rightarrow> error + gr_state \<Rightarrow> gr_state raised" where
  "raise_in s r = (case r of Inl e \<Rightarrow> Inl (e, s) | Inr s' \<Rightarrow> Inr s')"

text \<open>The body of \<^verbatim>\<open>for day in days\<close>.\<close>

definition day_step :: "string \<Rightarrow> int \<Rightarrow> gr_state \<Rightarrow> gr_state raised" where
  "day_step column d s =
     raise_in s (store_return column d (offset_return (st_history s) column d) s)"

text \<open>
  The body of \<^verbatim>\<open>for week, week_day in weeks.items()\<close> and of the loop over the months:
  the \<^verbatim>\<open>try\<close> block computes the return from the calendar date, and the bare \<^verbatim>\<open>except\<close>
  catches whatever it raises and runs the day-count arithmetic on the day-count key.
\<close>

definition calendar_step ::
  "(int \<Rightarrow> date \<Rightarrow> date) \<Rightarrow> date \<Rightarrow> string \<Rightarrow> int \<times> int \<Rightarrow> gr_state \<Rightarrow> gr_state raised" where
  "calendar_step offset end_date column wk s =
     (let start_date = offset (- fst wk) end_date in
      case store_return column (snd wk)
             (calendar_return (st_history s) end_date start_date column) s of
        Inr s' \<Rightarrow> Inr s'
      | Inl _ \<Rightarrow>
          raise_in s (store_return column (snd wk) (offset_return (st_history s) column (snd wk)) s))"

text \<open>The body of \<^verbatim>\<open>for column in history.columns\<close>.\<close>

definition column_step :: "date \<Rightarrow> string \<Rightarrow> gr_state \<Rightarrow> gr_state raised" where
  "column_step end_date column s =
     (case for_each (day_step column) (tm_days (st_tenor s)) s of
        Inl es \<Rightarrow> Inl es
      | Inr s1 \<Rightarrow>
     (case for_each (calendar_step weeks_offset end_date column) (tm_weeks (st_tenor s1)) s1 of
        Inl es \<Rightarrow> Inl es
      | Inr s2 \<Rightarrow>
          for_each (calendar_step months_offset end_date column) (tm_months (st_tenor s2)) s2))"

text \<open>Lines 433 to 481: the frame is created, indexed by the instruments, and filled.\<close>

definition fill_returns :: "history \<Rightarrow> tenor_mappings \<Rightarrow> gr_state raised" where
  "fill_returns h tm =
     (let s0 = \<lparr>st_history = h, st_tenor = tm,
                st_returns_df = \<lparr>rf_index = map fst (h_columns h), rf_columns = [],
                                 rf_cells = (\<lambda>_. None)\<rparr>\<rparr>
      in case iloc (h_index h) (- 1) of
           Inl e \<Rightarrow> Inl (e, s0)
         | Inr end_date \<Rightarrow> for_each (column_step end_date) (map fst (h_columns h)) s0)"

text \<open>
  Lines 483 to 499. A value of the result: the instrument's name, a return, or the
  not-a-number of a cell that was never set.
\<close>

datatype jval = JStr string | JNum real | JNaN

definition cell_val :: "real option \<Rightarrow> jval" where
  "cell_val c = (case c of None \<Rightarrow> JNaN | Some v \<Rightarrow> JNum v)"

record returns_dict =
  rd_data :: "(string \<times> jval) list list"
  rd_labels :: "string list"

text \<open>\<^verbatim>\<open>returns_df.T.to_dict(orient='list')\<close>: for each instrument the list of its row.\<close>

definition to_dict_list :: "returns_frame \<Rightarrow> (string \<times> real option list) list" where
  "to_dict_list rf =
     fold (\<lambda>r d. AList.update r (map (\<lambda>c. rf_cells rf (r, c)) (rf_columns rf)) d) (rf_index rf) []"

definition asset_dict :: "string list \<Rightarrow> string \<times> real option list \<Rightarrow> (string \<times> jval) list" where
  "asset_dict tenors kv =
     fold (\<lambda>(tenor, x) d. AList.update tenor (cell_val x) d) (zip tenors (snd kv))
       [(''label'', JStr (fst kv))]"

definition build_returns_dict :: "returns_frame \<Rightarrow> returns_dict" where
  "build_returns_dict rf =
     (let data = to_dict_list rf; tenors = rf_columns rf
      in \<lparr>rd_data = map (asset_dict tenors) data, rd_labels = tenors\<rparr>)"

text \<open>
  A call of \<^verbatim>\<open>get_returns\<close>: what it returns or raises, and the state it leaves.
\<close>

definition get_returns_run :: "history \<Rightarrow> tenor_mappings \<Rightarrow> (error + returns_dict) \<times> gr_state" where
  "get_returns_run h tm =
     (case fill_returns h tm of
        Inl es \<Rightarrow> (Inl (fst es), snd es)
      | Inr s \<Rightarrow> (Inr (build_returns_dict (st_returns_df s)), s))"

definition get_returns :: "history \<Rightarrow> tenor_mappings \<Rightarrow> error + returns_dict" where
  "get_returns h tm = fst (get_returns_run h tm)"

section \<open>The market-data package\<close>

text \<open>
  \<^verbatim>\<open>norgatedata\<close> is an external package. What \<^verbatim>\<open>ReturnsHistory\<close> asks of it is taken as given:
  the names of the databases, the symbols of a database, the name of a security, and the
  daily closing prices of a ticker between two dates, a date-indexed series in which a
  price can be missing.
\<close>

record norgatedata =
  databases :: "string list"
  database_symbols :: "string \<Rightarrow> string list"
  security_name :: "string \<Rightarrow> string"
  price_timeseries :: "string \<Rightarrow> string \<Rightarrow> string \<Rightarrow> (date \<times> real option) list"

section \<open>ReturnsHistory.get\_tickers\<close>

text \<open>The slice \<^verbatim>\<open>ticker[-4:]\<close>: the last four characters, or the whole of a shorter string.\<close>

definition last_four :: "string \<Rightarrow> string" where
  "last_four ticker = drop (length ticker - 4) ticker"

definition get_tickers :: "norgatedata \<Rightarrow> error + string list" where
  "get_tickers nd =
     (let alldatabasenames = databases nd;
          databasenames = take 4 alldatabasenames
      in bindE (iloc alldatabasenames (- 1)) (\<lambda>last_name.
         let databasenames = databasenames @ [last_name];
             all_tickers =
               fold (\<lambda>item acc. fold (\<lambda>ticker acc. acc @ [ticker]) (database_symbols nd item) acc)
                 databasenames [];
             lim_tickers =
               fold (\<lambda>ticker acc. if last_four ticker \<noteq> ''_CCB'' then acc @ [ticker] else acc)
                 all_tickers []
         in Inr lim_tickers))"

section \<open>ReturnsHistory.get\_history\<close>

text \<open>
  A table of closing prices while it is built: a missing price is \<open>None\<close>, and two
  columns can carry the same name.
\<close>

record price_table =
  pt_index :: "date list"
  pt_columns :: "(string \<times> real option list) list"

text \<open>A series brought onto an index: the price at each date of the index, missing where
  the series has no such date.\<close>

definition reindex :: "(date \<times> real option) list \<Rightarrow> date list \<Rightarrow> real option list" where
  "reindex series idx = map (\<lambda>d. case map_of series d of None \<Rightarrow> None | Some p \<Rightarrow> p) idx"

definition column_series :: "date list \<Rightarrow> real option list \<Rightarrow> (date \<times> real option) list" where
  "column_series idx col = zip idx col"

text \<open>
  \<^verbatim>\<open>history[ticker_name] = data['Close']\<close> on a table with no rows: a series with entries
  gives the table its index, and the columns already there are filled with missing values;
  the column replaces one of the same name or is added last.
\<close>

definition set_column :: "string \<Rightarrow> (date \<times> real option) list \<Rightarrow> price_table \<Rightarrow> price_table" where
  "set_column name series t =
     (let idx = (if pt_index t = [] \<and> series \<noteq> [] then map fst series else pt_index t);
          old = map (\<lambda>c. (fst c, reindex (column_series (pt_index t) (snd c)) idx)) (pt_columns t)
      in \<lparr>pt_index = idx, pt_columns = AList.update name (reindex series idx) old\<rparr>)"

text \<open>
  \<^verbatim>\<open>pd.concat((history, data[ticker_name]), axis=1)\<close>: an outer join on the dates. The order
  in which pandas lists the dates of the two indexes is a parameter \<open>union_index\<close>.
\<close>

definition concat_column ::
  "(date list \<Rightarrow> date list \<Rightarrow> date list) \<Rightarrow> string \<Rightarrow> (date \<times> real option) list \<Rightarrow>
   price_table \<Rightarrow> price_table" where
  "concat_column union_index name series t =
     (let idx = union_index (pt_index t) (map fst series);
          old = map (\<lambda>c. (fst c, reindex (column_series (pt_index t) (snd c)) idx)) (pt_columns t)
      in \<lparr>pt_index = idx, pt_columns = old @ [(name, reindex series idx)]\<rparr>)"

text \<open>The loop over the tickers, from the empty table.\<close>

definition add_ticker ::
  "norgatedata \<Rightarrow> (date list \<Rightarrow> date list \<Rightarrow> date list) \<Rightarrow> string \<Rightarrow> string \<Rightarrow> string \<Rightarrow>
   price_table \<Rightarrow> price_table" where
  "add_ticker nd union_index start_date end_date ticker history =
     (let data = price_timeseries nd ticker start_date end_date;
          ticker_name = security_name nd ticker
      in if length (pt_index history) = 0 then set_column ticker_name data history
         else concat_column union_index ticker_name data history)"

definition collect_history ::
  "norgatedata \<Rightarrow> (date list \<Rightarrow> date list \<Rightarrow> date list) \<Rightarrow> string \<Rightarrow> string \<Rightarrow> string list \<Rightarrow>
   price_table" where
  "collect_history nd union_index start_date end_date tickers =
     fold (add_ticker nd union_index start_date end_date) tickers
       \<lparr>pt_index = [], pt_columns = []\<rparr>"

text \<open>\<^verbatim>\<open>history.ffill(inplace=True)\<close>: down each column, a missing price takes the last price
  seen above it; the missing prices above the first price stay.\<close>

fun ffill_from :: "real option \<Rightarrow> real option list \<Rightarrow> real option list" where
  "ffill_from prev [] = []"
| "ffill_from prev (None # xs) = prev # ffill_from prev xs"
| "ffill_from prev (Some v # xs) = Some v # ffill_from (Some v) xs"

definition ffill :: "price_table \<Rightarrow> price_table" where
  "ffill t = t\<lparr>pt_columns := map (\<lambda>c. (fst c, ffill_from None (snd c))) (pt_columns t)\<rparr>"

text \<open>\<^verbatim>\<open>history.dropna(inplace=True)\<close>: a row with a missing price in any column is dropped.\<close>

definition row_complete :: "price_table \<Rightarrow> nat \<Rightarrow> bool" where
  "row_complete t i = list_all (\<lambda>c. i < length (snd c) \<and> snd c ! i \<noteq> None) (pt_columns t)"

definition keep_rows :: "price_table \<Rightarrow> 'a list \<Rightarrow> 'a list" where
  "keep_rows t xs = map (\<lambda>i. xs ! i) (filter (row_complete t) [0..<length xs])"

definition dropna :: "price_table \<Rightarrow> price_table" where
  "dropna t =
     \<lparr>pt_index = keep_rows t (pt_index t),
      pt_columns = map (\<lambda>c. (fst c, keep_rows t (snd c))) (pt_columns t)\<rparr>"

definition get_history ::
  "norgatedata \<Rightarrow> (date list \<Rightarrow> date list \<Rightarrow> date list) \<Rightarrow> string \<Rightarrow> string \<Rightarrow> string list \<Rightarrow>
   price_table" where
  "get_history nd union_index start_date end_date tickers =
     dropna (ffill (collect_history nd union_index start_date end_date tickers))"

section \<open>Dictionaries as objects\<close>

text \<open>
  Parameter construction copies a module-level dictionary and writes to the copy, so for it
  dictionaries are objects in a store: a value is an immediate value, an opaque object
  (a table) held by value, or a reference to a dictionary of the store. The store is the
  list of the dictionaries allocated so far, an address is a position in it, and
  allocation appends.
\<close>

datatype pykey = KStr string | KInt int

datatype 'o pyval = PNone | PBool bool | PInt int | PStr string | PObj 'o | PRef nat

type_synonym 'o pydict = "(pykey \<times> 'o pyval) list"

type_synonym 'o heap = "'o pydict list"

text \<open>The dictionary a value refers to.\<close>

definition deref :: "'o heap \<Rightarrow> 'o pyval \<Rightarrow> error + 'o pydict" where
  "deref h v =
     (case v of
        PRef a \<Rightarrow> if a < length h then Inr (h ! a) else Inl NotModelled
      | _ \<Rightarrow> Inl TypeError)"

text \<open>
  \<^verbatim>\<open>copy.deepcopy\<close>: an immediate value is returned as it is; a dictionary is copied entry
  by entry, its values copied first, into a new dictionary. The model covers stores in
  which a dictionary refers only to dictionaries allocated before it, as the nested
  literals of a module are; the bound \<open>b\<close> is the address whose entries are being copied,
  and a reference that is not below it is outside the model.
\<close>

function deepcopy :: "'o heap \<Rightarrow> nat \<Rightarrow> 'o pyval \<Rightarrow> error + ('o heap \<times> 'o pyval)"
  and deepcopy_items :: "'o heap \<Rightarrow> nat \<Rightarrow> 'o pydict \<Rightarrow> error + ('o heap \<times> 'o pydict)"
where
  "deepcopy h b (PRef a) =
     (if a < b \<and> a < length h
      then (case deepcopy_items h a (h ! a) of
              Inl e \<Rightarrow> Inl e
            | Inr (h', d) \<Rightarrow> Inr (h' @ [d], PRef (length h')))
      else Inl NotModelled)"
| "deepcopy h b PNone = Inr (h, PNone)"
| "deepcopy h b (PBool x) = Inr (h, PBool x)"
| "deepcopy h b (PInt x) = Inr (h, PInt x)"
| "deepcopy h b (PStr x) = Inr (h, PStr x)"
| "deepcopy h b (PObj x) = Inr (h, PObj x)"
| "deepcopy_items h a [] = Inr (h, [])"
| "deepcopy_items h a (kv # kvs) =
     (case deepcopy h a (snd kv) of
        Inl e \<Rightarrow> Inl e
      | Inr (h1, v1) \<Rightarrow>
          (case deepcopy_items h1 a kvs of
             Inl e \<Rightarrow> Inl e
           | Inr (h2, d) \<Rightarrow> Inr (h2, (fst kv, v1) # d)))"
  by pat_completeness auto
termination
  by (relation "inv_image (less_than <*lex*> less_than)
        (\<lambda>x. case x of Inl (h, b, v) \<Rightarrow> (b, 0) | Inr (h, a, kvs) \<Rightarrow> (a, Suc (length kvs)))")
     auto

text \<open>\<^verbatim>\<open>d[key] = value\<close> on the dictionary a value refers to.\<close>

definition setitem :: "'o heap \<Rightarrow> 'o pyval \<Rightarrow> pykey \<Rightarrow> 'o pyval \<Rightarrow> error + 'o heap" where
  "setitem h d k v =
     (case d of
        PRef a \<Rightarrow> if a < length h then Inr (h[a := AList.update k v (h ! a)]) else Inl NotModelled
      | _ \<Rightarrow> Inl TypeError)"

text \<open>\<^verbatim>\<open>for key, value in items: d[key] = value\<close>\<close>

fun setitems :: "'o heap \<Rightarrow> 'o pyval \<Rightarrow> 'o pydict \<Rightarrow> error + 'o heap" where
  "setitems h d [] = Inr h"
| "setitems h d (kv # kvs) =
     (case setitem h d (fst kv) (snd kv) of Inl e \<Rightarrow> Inl e | Inr h' \<Rightarrow> setitems h' d kvs)"

section \<open>TrendStrength.\_init\_params\<close>

text \<open>
  The module-level dictionaries \<^verbatim>\<open>trend_params_dict\<close> and \<^verbatim>\<open>sectmap\<close> are defined in other
  modules: only their addresses in the store are known here.
\<close>

record globals =
  trend_params_dict :: nat
  sectmap :: nat

definition init_params :: "'o heap \<Rightarrow> globals \<Rightarrow> 'o pyval \<Rightarrow> error + ('o heap \<times> 'o pyval)" where
  "init_params h g inputs =
     bindE (deref h (PRef (trend_params_dict g))) (\<lambda>tpd.
     bindE (getitem tpd (KStr ''df_params'')) (\<lambda>df_params.
     bindE (deepcopy h (length h) df_params) (\<lambda>(h1, params).
     bindE (deref h1 inputs) (\<lambda>items.
     bindE (setitems h1 params items) (\<lambda>h2.
       Inr (h2, params))))))"

text \<open>
  Lines 87 to 101 of \<^verbatim>\<open>TrendStrength.__init__\<close>: the copies of the two module-level
  dictionaries, the dictionary \<^verbatim>\<open>inputs\<close> filled from the keyword arguments, and the call
  of \<^verbatim>\<open>_init_params\<close>. The result is the store with the default dictionary, the mappings
  and the parameters.
\<close>

definition init_inputs ::
  "'o heap \<Rightarrow> globals \<Rightarrow> (string \<times> 'o pyval) list \<Rightarrow>
   error + ('o heap \<times> 'o pyval \<times> 'o pyval \<times> 'o pyval)" where
  "init_inputs h g kwargs =
     bindE (deepcopy h (length h) (PRef (trend_params_dict g))) (\<lambda>(h1, default_dict).
     bindE (deepcopy h1 (length h1) (PRef (sectmap g))) (\<lambda>(h2, mappings).
     let inputs = PRef (length h2); h3 = h2 @ [[]] in
     bindE (setitems h3 inputs (map (\<lambda>kv. (KStr (fst kv), snd kv)) kwargs)) (\<lambda>h4.
     bindE (init_params h4 g inputs) (\<lambda>(h5, params).
       Inr (h5, default_dict, mappings, params)))))"

section \<open>The stages of TrendStrength\<close>

text \<open>
  The stages are written in the source in state-passing style: each takes the
  dictionaries of parameters, tables and mappings and returns the ones it changed. From
  here on the model follows that style, with the dictionaries as values: the parameters
  are the entries of the dictionary that parameter construction leaves in the store.
\<close>

text \<open>
  Modelled from the spec: the functions of the modules \<^verbatim>\<open>trend_data\<close>,
  \<^verbatim>\<open>market_data\<close> and \<^verbatim>\<open>chart_data\<close>, which are not part of this file. Each is
  taken as a function of its arguments that returns a value or raises (section 4 of the
  specification gives the stages their contracts, and section 3 makes the price tables
  read-only once created); what it computes is left open.
\<close>

record 'o collaborators =
  get_norgate_tickers :: "'o pydict \<Rightarrow> error + 'o pydict"
  date_set :: "'o pydict \<Rightarrow> error + 'o pydict"
  import_norgate ::
    "'o pydict \<Rightarrow> 'o pydict \<Rightarrow> 'o pydict \<Rightarrow> error + ('o pydict \<times> 'o pydict \<times> 'o pydict)"
  ticker_clean :: "'o pydict \<Rightarrow> 'o pydict \<Rightarrow> error + 'o pydict"
  ticker_extract :: "'o pydict \<Rightarrow> 'o pydict \<Rightarrow> error + ('o pydict \<times> 'o pydict)"
  import_yahoo :: "'o pydict \<Rightarrow> 'o pydict \<Rightarrow> error + ('o pydict \<times> 'o pydict)"
  generate_fields :: "'o pydict \<Rightarrow> 'o pyval \<Rightarrow> error + 'o pyval"
  generate_trend_strength :: "'o pydict \<Rightarrow> 'o pyval \<Rightarrow> 'o pyval \<Rightarrow> error + 'o pyval"
  top_trend_calc :: "'o pydict \<Rightarrow> 'o pydict \<Rightarrow> error + ('o pyval \<times> 'o pydict)"
  get_all_data :: "'o pydict \<Rightarrow> 'o pydict \<Rightarrow> error + 'o pyval"

definition prep_norgate ::
  "'o collaborators \<Rightarrow> 'o pydict \<Rightarrow> 'o pydict \<Rightarrow> error + ('o pydict \<times> 'o pydict \<times> 'o pydict)" where
  "prep_norgate c params mappings =
     (let params = AList.update (KStr ''asset_type'') (PStr ''CTA'') params in
      bindE (getitem params (KStr ''tickers'')) (\<lambda>tickers.
      bindE (if tickers = PNone then get_norgate_tickers c params else Inr params) (\<lambda>params.
      bindE (date_set c params) (\<lambda>params.
      let tables = [] in
      bindE (import_norgate c params tables mappings) (\<lambda>(params, tables, mappings).
      bindE (ticker_clean c params tables) (\<lambda>tables.
        Inr (params, tables, mappings)))))))"

definition prep_yahoo ::
  "'o collaborators \<Rightarrow> 'o pydict \<Rightarrow> 'o pydict \<Rightarrow> error + ('o pydict \<times> 'o pydict \<times> 'o pydict)" where
  "prep_yahoo c params mappings =
     bindE (ticker_extract c params mappings) (\<lambda>(params, mappings).
     bindE (getitem params (KStr ''ticker_name_dict'')) (\<lambda>names.
     let params = AList.update (KStr ''ticker_short_name_dict'') names params;
         params = AList.update (KStr ''asset_type'') (PStr ''Equity'') params in
     bindE (date_set c params) (\<lambda>params.
     let tables = [] in
     bindE (import_yahoo c params tables) (\<lambda>(params, tables).
     bindE (ticker_clean c params tables) (\<lambda>tables.
       Inr (params, tables, mappings))))))"

definition trend_calc ::
  "'o collaborators \<Rightarrow> 'o pydict \<Rightarrow> 'o pydict \<Rightarrow> 'o pydict \<Rightarrow> error + 'o pydict" where
  "trend_calc c params tables mappings =
     bindE (getitem tables (KStr ''raw_ticker_dict'')) (\<lambda>raw_ticker_dict.
     bindE (generate_fields c params raw_ticker_dict) (\<lambda>fields.
     let tables = AList.update (KStr ''ticker_dict'') fields tables in
     bindE (getitem tables (KStr ''ticker_dict'')) (\<lambda>ticker_dict.
     bindE (getitem mappings (KStr ''sector_mappings_df'')) (\<lambda>sector_mappings_df.
     bindE (generate_trend_strength c params ticker_dict sector_mappings_df) (\<lambda>barometer.
       Inr (AList.update (KStr ''barometer'') barometer tables))))))"

definition top_trend_tickers ::
  "'o collaborators \<Rightarrow> 'o pydict \<Rightarrow> 'o pydict \<Rightarrow> error + ('o pyval \<times> 'o pydict)" where
  "top_trend_tickers c params tables = top_trend_calc c tables params"

section \<open>TrendStrength.\_\_init\_\_\<close>

record 'o trend_strength =
  ts_default_dict :: "'o pyval"
  ts_top_trends :: "'o pyval"
  ts_tables :: "'o pydict"
  ts_params :: "'o pydict"
  ts_mappings :: "'o pydict"
  ts_data_dict :: "'o pyval"

text \<open>
  The two branches on \<^verbatim>\<open>params['source']\<close> are the only statements that bind the local
  variable \<^verbatim>\<open>tables\<close>; it is \<open>None\<close> here while it is unbound, and reading it then raises
  \<^verbatim>\<open>UnboundLocalError\<close>.
\<close>

definition read_local :: "'a option \<Rightarrow> error + 'a" where
  "read_local x = (case x of None \<Rightarrow> Inl UnboundLocalError | Some v \<Rightarrow> Inr v)"

text \<open>The entries of the dictionary a value refers to, for a stage that takes them.\<close>

definition entries :: "'o heap \<Rightarrow> 'o pyval \<Rightarrow> 'o pydict" where
  "entries h v = (case deref h v of Inl _ \<Rightarrow> [] | Inr d \<Rightarrow> d)"

definition TrendStrength_init ::
  "'o collaborators \<Rightarrow> 'o heap \<Rightarrow> globals \<Rightarrow> (string \<times> 'o pyval) list \<Rightarrow>
   error + 'o trend_strength" where
  "TrendStrength_init c h g kwargs =
     bindE (init_inputs h g kwargs) (\<lambda>(h', default_dict, mappings_ref, params_ref).
     let mappings = entries h' mappings_ref in
     bindE (deref h' params_ref) (\<lambda>params.
     bindE (getitem params (KStr ''source'')) (\<lambda>source.
     bindE
       (if source = PStr ''norgate'' then
          bindE (prep_norgate c params mappings) (\<lambda>(params, tables, mappings).
            Inr (params, Some tables, mappings))
        else if source = PStr ''yahoo'' then
          bindE (prep_yahoo c params mappings) (\<lambda>(params, tables, mappings).
            Inr (params, Some tables, mappings))
        else Inr (params, None, mappings))
       (\<lambda>(params, tables, mappings).
     bindE (read_local tables) (\<lambda>tables.
     bindE (trend_calc c params tables mappings) (\<lambda>tables.
     bindE (top_trend_tickers c params tables) (\<lambda>(top_trends, tables).
     bindE (get_all_data c params tables) (\<lambda>data_dict.
       Inr \<lparr>ts_default_dict = default_dict, ts_top_trends = top_trends, ts_tables = tables,
            ts_params = params, ts_mappings = mappings, ts_data_dict = data_dict\<rparr>))))))))"

section \<open>Notions used to state and prove the properties of get\_returns\<close>

text \<open>
  The tenor keys in the order \<^verbatim>\<open>get_returns\<close> visits them for one instrument (the
  day-counts, then the day-count key of each week, then of each month), the label
  \<^verbatim>\<open>labels[k]\<close> of a key, and the labels in that order.
\<close>

definition tenor_keys :: "tenor_mappings \<Rightarrow> int list" where
  "tenor_keys tm = tm_days tm @ map snd (tm_weeks tm) @ map snd (tm_months tm)"

definition label_of :: "tenor_mappings \<Rightarrow> int \<Rightarrow> string" where
  "label_of tm k = (case map_of (tm_labels tm) k of None \<Rightarrow> [] | Some l \<Rightarrow> l)"

definition tenor_labels :: "tenor_mappings \<Rightarrow> string list" where
  "tenor_labels tm = map (label_of tm) (tenor_keys tm)"

text \<open>
  The invariant of a tenor specification: every key used has a label, and the labels of
  the tenors are pairwise different.
\<close>

definition labels_ok :: "tenor_mappings \<Rightarrow> bool" where
  "labels_ok tm = list_all (\<lambda>k. map_of (tm_labels tm) k \<noteq> None) (tenor_keys tm)"

definition wf_tenor :: "tenor_mappings \<Rightarrow> bool" where
  "wf_tenor tm = (labels_ok tm \<and> distinct (tenor_labels tm))"

text \<open>
  The percentage change between two prices, and the return a week or month tenor is
  claimed to have: from the price at the calendar date when the index has that date, from
  the price \<open>k\<close> rows before the last otherwise.
\<close>

definition pct_change :: "real \<Rightarrow> real \<Rightarrow> real" where
  "pct_change p_end p_start = (p_end - p_start) / p_start * 100"

definition claimed_calendar_return :: "history \<Rightarrow> real list \<Rightarrow> date \<Rightarrow> int \<Rightarrow> real" where
  "claimed_calendar_return h ps start_date k =
     (case index_of start_date (h_index h) of
        Some j \<Rightarrow> pct_change (last ps) (ps ! j)
      | None \<Rightarrow> pct_change (last ps) (ps ! (length ps - 1 - nat k)))"

text \<open>
  A history long enough for every tenor: each day-count is below the number of rows, and
  so is the day-count key of each week and month whose calendar date the index lacks.
\<close>

definition sufficient_history :: "history \<Rightarrow> tenor_mappings \<Rightarrow> bool" where
  "sufficient_history h tm =
     (let n = int (length (h_index h)); e = last (h_index h) in
      h_index h \<noteq> [] \<and>
      list_all (\<lambda>d. 0 \<le> d \<and> d < n) (tm_days tm) \<and>
      list_all (\<lambda>wk. weeks_offset (- fst wk) e \<in> set (h_index h) \<or> (0 \<le> snd wk \<and> snd wk < n))
        (tm_weeks tm) \<and>
      list_all (\<lambda>wk. months_offset (- fst wk) e \<in> set (h_index h) \<or> (0 \<le> snd wk \<and> snd wk < n))
        (tm_months tm))"

text \<open>
  For the proofs, the three loops over one instrument are read as one loop over a list of
  stores: the key of each tenor with the value of its right-hand side, where the value of a
  week or month tenor is the calendar return or, when that raises, the day-count return.
\<close>

definition calendar_value ::
  "(int \<Rightarrow> date \<Rightarrow> date) \<Rightarrow> history \<Rightarrow> date \<Rightarrow> string \<Rightarrow> int \<times> int \<Rightarrow> error + real" where
  "calendar_value offset h end_date column wk =
     (case calendar_return h end_date (offset (- fst wk) end_date) column of
        Inr v \<Rightarrow> Inr v
      | Inl _ \<Rightarrow> offset_return h column (snd wk))"

definition tenor_plan :: "history \<Rightarrow> tenor_mappings \<Rightarrow> date \<Rightarrow> string \<Rightarrow> (int \<times> (error + real)) list" where
  "tenor_plan h tm end_date column =
     map (\<lambda>d. (d, offset_return h column d)) (tm_days tm) @
     map (\<lambda>wk. (snd wk, calendar_value weeks_offset h end_date column wk)) (tm_weeks tm) @
     map (\<lambda>wk. (snd wk, calendar_value months_offset h end_date column wk)) (tm_months tm)"

definition store_step :: "string \<Rightarrow> int \<times> (error + real) \<Rightarrow> gr_state \<Rightarrow> gr_state raised" where
  "store_step column kr s = raise_in s (store_return column (fst kr) (snd kr) s)"

definition plan_ok :: "tenor_mappings \<Rightarrow> int \<times> (error + real) \<Rightarrow> bool" where
  "plan_ok tm kr = (\<not> isl (snd kr) \<and> map_of (tm_labels tm) (fst kr) \<noteq> None)"

definition plan_set :: "tenor_mappings \<Rightarrow> string \<Rightarrow> int \<times> (error + real) \<Rightarrow> returns_frame \<Rightarrow> returns_frame" where
  "plan_set tm column kr rf = set_loc column (label_of tm (fst kr)) (projr (snd kr)) rf"

definition add_col :: "string \<Rightarrow> string list \<Rightarrow> string list" where
  "add_col l cs = (if l \<in> set cs then cs else cs @ [l])"

definition fill_column :: "history \<Rightarrow> tenor_mappings \<Rightarrow> date \<Rightarrow> string \<Rightarrow> returns_frame \<Rightarrow> returns_frame" where
  "fill_column h tm end_date c rf = fold (plan_set tm c) (tenor_plan h tm end_date c) rf"

definition column_ok :: "history \<Rightarrow> tenor_mappings \<Rightarrow> date \<Rightarrow> string \<Rightarrow> bool" where
  "column_ok h tm end_date c = list_all (plan_ok tm) (tenor_plan h tm end_date c)"

text \<open>The state \<^verbatim>\<open>get_returns\<close> starts from, and the frame once every instrument is done.\<close>

definition s_init :: "history \<Rightarrow> tenor_mappings \<Rightarrow> gr_state" where
  "s_init h tm = \<lparr>st_history = h, st_tenor = tm,
     st_returns_df = \<lparr>rf_index = map fst (h_columns h), rf_columns = [], rf_cells = (\<lambda>_. None)\<rparr>\<rparr>"

definition filled :: "history \<Rightarrow> tenor_mappings \<Rightarrow> date \<Rightarrow> returns_frame" where
  "filled h tm e = fold (fill_column h tm e) (map fst (h_columns h)) (st_returns_df (s_init h tm))"

definition args_are :: "history \<Rightarrow> tenor_mappings \<Rightarrow> gr_state \<Rightarrow> bool" where
  "args_are h tm s = (st_history s = h \<and> st_tenor s = tm)"

definition keeps_args :: "gr_state \<Rightarrow> gr_state raised \<Rightarrow> bool" where
  "keeps_args s r =
     (case r of
        Inl es \<Rightarrow> st_history (snd es) = st_history s \<and> st_tenor (snd es) = st_tenor s
      | Inr s' \<Rightarrow> st_history s' = st_history s \<and> st_tenor s' = st_tenor s)"

subsection \<open>A worked example\<close>

text \<open>
  Five trading days ending on 1 February 2024. One week before the last date is
  25 January, which is in the index; one month before is 1 January, which is not, so the
  month tenor falls back to its day-count key 3.
\<close>

definition ex_history :: history where
  "ex_history =
     \<lparr>h_index = [\<lparr>year = 2024, month = 1, day = 25\<rparr>, \<lparr>year = 2024, month = 1, day = 26\<rparr>,
                 \<lparr>year = 2024, month = 1, day = 29\<rparr>, \<lparr>year = 2024, month = 1, day = 31\<rparr>,
                 \<lparr>year = 2024, month = 2, day = 1\<rparr>],
      h_columns = [(''A'', [100, 120, 130, 125, 150]), (''B'', [50, 40, 20, 25, 10])]\<rparr>"

definition ex_tenor :: tenor_mappings where
  "ex_tenor = \<lparr>tm_days = [1], tm_weeks = [(1, 2)], tm_months = [(1, 3)],
               tm_labels = [(1, ''1D''), (2, ''1W''), (3, ''1M'')]\<rparr>"

definition ex_returns :: returns_dict where
  "ex_returns =
     \<lparr>rd_data = [[(''label'', JStr ''A''), (''1D'', JNum 20), (''1W'', JNum 50), (''1M'', JNum 25)],
                 [(''label'', JStr ''B''), (''1D'', JNum (- 60)), (''1W'', JNum (- 80)), (''1M'', JNum (- 75))]],
      rd_labels = [''1D'', ''1W'', ''1M'']\<rparr>"

text \<open>A history with one row and no instrument, one with one row and one instrument, and
  a tenor mapping whose only label is the string \<open>label\<close>.\<close>

definition no_column_history :: history where
  "no_column_history = \<lparr>h_index = [\<lparr>year = 2024, month = 2, day = 1\<rparr>], h_columns = []\<rparr>"

definition short_history :: history where
  "short_history =
     \<lparr>h_index = [\<lparr>year = 2024, month = 2, day = 1\<rparr>], h_columns = [(''A'', [150])]\<rparr>"

definition label_tenor :: tenor_mappings where
  "label_tenor = \<lparr>tm_days = [0], tm_weeks = [], tm_months = [], tm_labels = [(0, ''label'')]\<rparr>"

section \<open>Notions used to state the properties of get\_tickers and get\_history\<close>

text \<open>The last price present in a column at or above row \<open>i\<close>.\<close>

definition last_seen :: "real option list \<Rightarrow> nat \<Rightarrow> real option" where
  "last_seen col i =
     (case filter (\<lambda>x. x \<noteq> None) (rev (take (Suc i) col)) of [] \<Rightarrow> None | x # _ \<Rightarrow> x)"

text \<open>The rows at which every column has had a price at or above the row.\<close>

definition rows_with_prices :: "price_table \<Rightarrow> nat list" where
  "rows_with_prices t =
     filter (\<lambda>i. list_all (\<lambda>c. last_seen (snd c) i \<noteq> None) (pt_columns t))
       [0..<length (pt_index t)]"

definition rectangular :: "price_table \<Rightarrow> bool" where
  "rectangular t = list_all (\<lambda>c. length (snd c) = length (pt_index t)) (pt_columns t)"

subsection \<open>A worked example\<close>

text \<open>
  Two databases, five symbols of which two end in \<open>_CCB\<close>, and two price series that
  overlap on two dates. The united index lists the dates of the table first, then the new
  ones.
\<close>

definition ex_norgate :: norgatedata where
  "ex_norgate =
     \<lparr>databases = [''Futures'', ''Cash''],
      database_symbols =
        (\<lambda>d. if d = ''Futures'' then [''ES'', ''ES_CCB'', ''CCB''] else [''_CCB'', ''GC'']),
      security_name = (\<lambda>t. t),
      price_timeseries =
        (\<lambda>t s e. if t = ''ES''
           then [(\<lparr>year = 2024, month = 1, day = 2\<rparr>, None),
                 (\<lparr>year = 2024, month = 1, day = 3\<rparr>, Some 5),
                 (\<lparr>year = 2024, month = 1, day = 4\<rparr>, None)]
           else [(\<lparr>year = 2024, month = 1, day = 3\<rparr>, None),
                 (\<lparr>year = 2024, month = 1, day = 4\<rparr>, Some 7),
                 (\<lparr>year = 2024, month = 1, day = 5\<rparr>, Some 8)])\<rparr>"

definition append_new_dates :: "date list \<Rightarrow> date list \<Rightarrow> date list" where
  "append_new_dates a b = a @ filter (\<lambda>d. d \<notin> set a) b"

definition ex_collected :: price_table where
  "ex_collected =
     \<lparr>pt_index = [\<lparr>year = 2024, month = 1, day = 2\<rparr>, \<lparr>year = 2024, month = 1, day = 3\<rparr>,
                  \<lparr>year = 2024, month = 1, day = 4\<rparr>, \<lparr>year = 2024, month = 1, day = 5\<rparr>],
      pt_columns = [(''ES'', [None, Some 5, None, None]), (''GC'', [None, None, Some 7, Some 8])]\<rparr>"

definition ex_filled :: price_table where
  "ex_filled =
     \<lparr>pt_index = [\<lparr>year = 2024, month = 1, day = 2\<rparr>, \<lparr>year = 2024, month = 1, day = 3\<rparr>,
                  \<lparr>year = 2024, month = 1, day = 4\<rparr>, \<lparr>year = 2024, month = 1, day = 5\<rparr>],
      pt_columns = [(''ES'', [None, Some 5, Some 5, Some 5]), (''GC'', [None, None, Some 7, Some 8])]\<rparr>"

section \<open>Notions used to state the properties of parameter construction\<close>








subsection \<open>A worked example\<close>

text \<open>
  A store with the tenor mappings at address 0, the default parameters at 1, the module's
  dictionary of parameters at 2 and the sector mappings at 3; the keyword arguments
  \<open>source='csv', mkts=5\<close>; and the store after parameter construction, where 4 to 6 copy the
  module's dictionary, 7 copies the sector mappings, 8 is \<open>inputs\<close> and 10 the parameters.
\<close>

definition ex_heap :: "string heap" where
  "ex_heap =
     [[(KStr ''days'', PInt 1)],
      [(KStr ''source'', PStr ''norgate''), (KStr ''mkts'', PInt 20),
       (KStr ''tenor_mappings'', PRef 0)],
      [(KStr ''df_params'', PRef 1)],
      [(KStr ''sector_mappings_df'', PObj ''sectors'')]]"

definition ex_globals :: globals where
  "ex_globals = \<lparr>trend_params_dict = 2, sectmap = 3\<rparr>"

definition ex_kwargs :: "(string \<times> string pyval) list" where
  "ex_kwargs = [(''source'', PStr ''csv''), (''mkts'', PInt 5)]"

definition ex_heap_after :: "string heap" where
  "ex_heap_after = ex_heap @
     [[(KStr ''days'', PInt 1)],
      [(KStr ''source'', PStr ''norgate''), (KStr ''mkts'', PInt 20),
       (KStr ''tenor_mappings'', PRef 4)],
      [(KStr ''df_params'', PRef 5)],
      [(KStr ''sector_mappings_df'', PObj ''sectors'')],
      [(KStr ''source'', PStr ''csv''), (KStr ''mkts'', PInt 5)],
      [(KStr ''days'', PInt 1)],
      [(KStr ''source'', PStr ''csv''), (KStr ''mkts'', PInt 5),
       (KStr ''tenor_mappings'', PRef 9)]]"

text \<open>
  Modelled from the spec: stand-ins for the other modules. Every stage hands on what it is
  given, but the barometer is the indicator family the parameters select (section 4.3 of
  the specification makes the trend score depend on the indicator family).
\<close>

definition ex_collab :: "string collaborators" where
  "ex_collab =
     \<lparr>get_norgate_tickers = Inr, date_set = Inr,
      import_norgate = (\<lambda>params tables mappings. Inr (params, tables, mappings)),
      ticker_clean = (\<lambda>params tables. Inr tables),
      ticker_extract = (\<lambda>params mappings. Inr (params, mappings)),
      import_yahoo = (\<lambda>params tables. Inr (params, tables)),
      generate_fields = (\<lambda>params raw. Inr raw),
      generate_trend_strength =
        (\<lambda>params ticker_dict sector_mappings_df. getitem params (KStr ''indicator_type'')),
      top_trend_calc = (\<lambda>tables params. Inr (PNone, tables)),
      get_all_data = (\<lambda>params tables. Inr PNone)\<rparr>"



section \<open>Properties of get\_returns\<close>

subsection \<open>The loops over one instrument as one sequence of stores\<close>

lemma for_each_append:
  "for_each f (xs @ ys) s = (case for_each f xs s of Inl es \<Rightarrow> Inl es | Inr s' \<Rightarrow> for_each f ys s')"
  by (induction xs arbitrary: s) (auto split: sum.splits)

lemma for_each_map: "for_each f (map g xs) s = for_each (\<lambda>x. f (g x)) xs s"
  by (induction xs arbitrary: s) (auto split: sum.splits)

lemma store_step_ok:
  "plan_ok (st_tenor s) kr \<Longrightarrow>
   store_step c kr s = Inr (s\<lparr>st_returns_df := plan_set (st_tenor s) c kr (st_returns_df s)\<rparr>)"
  by (cases "snd kr")
     (auto simp: store_step_def plan_ok_def raise_in_def store_return_def bindE_def getitem_def
        plan_set_def label_of_def split: option.splits)

lemma store_step_Inr:
  "store_step c kr s = Inr s' \<Longrightarrow> plan_ok (st_tenor s) kr"
  by (cases "snd kr")
     (auto simp: store_step_def plan_ok_def raise_in_def store_return_def bindE_def getitem_def
        split: option.splits)

lemma store_step_Inl:
  "store_step c kr s = Inl (e, s') \<Longrightarrow> s' = s"
  by (auto simp: store_step_def raise_in_def split: sum.splits)

lemma for_each_store_ok:
  "list_all (plan_ok (st_tenor s)) plan \<Longrightarrow>
   for_each (store_step c) plan s =
     Inr (s\<lparr>st_returns_df := fold (plan_set (st_tenor s) c) plan (st_returns_df s)\<rparr>)"
  by (induction plan arbitrary: s) (auto simp: store_step_ok)

lemma for_each_store_Inr:
  "for_each (store_step c) plan s = Inr s' \<Longrightarrow> list_all (plan_ok (st_tenor s)) plan"
proof (induction plan arbitrary: s)
  case Nil
  then show ?case by simp
next
  case (Cons kr plan)
  from Cons.prems obtain s1 where s1: "store_step c kr s = Inr s1"
    and rest: "for_each (store_step c) plan s1 = Inr s'"
    by (auto split: sum.splits)
  have ok: "plan_ok (st_tenor s) kr" using s1 by (rule store_step_Inr)
  have "st_tenor s1 = st_tenor s" using s1 store_step_ok [OF ok, of c] by auto
  with Cons.IH [OF rest] ok show ?case by simp
qed

lemma for_each_store_Inl:
  "for_each (store_step c) plan s = Inl (e, s') \<Longrightarrow>
   st_history s' = st_history s \<and> st_tenor s' = st_tenor s"
proof (induction plan arbitrary: s)
  case Nil
  then show ?case by simp
next
  case (Cons kr plan)
  show ?case
  proof (cases "store_step c kr s")
    case (Inl es)
    with Cons.prems have "store_step c kr s = Inl (e, s')" by simp
    then show ?thesis by (auto dest: store_step_Inl)
  next
    case (Inr s1)
    then have ok: "plan_ok (st_tenor s) kr" by (rule store_step_Inr)
    have "st_tenor s1 = st_tenor s \<and> st_history s1 = st_history s"
      using Inr store_step_ok [OF ok, of c] by auto
    moreover from Cons.prems Inr have "for_each (store_step c) plan s1 = Inl (e, s')" by simp
    ultimately show ?thesis using Cons.IH by force
  qed
qed

lemma for_each_cong_inv:
  assumes "\<And>x s'. x \<in> set xs \<Longrightarrow> I s' \<Longrightarrow> f x s' = g x s'"
    and "\<And>x s' s''. x \<in> set xs \<Longrightarrow> I s' \<Longrightarrow> g x s' = Inr s'' \<Longrightarrow> I s''"
    and "I s"
  shows "for_each f xs s = for_each g xs s"
  using assms
proof (induction xs arbitrary: s)
  case Nil
  then show ?case by simp
next
  case (Cons x xs)
  have fg: "f x s = g x s" using Cons.prems(1) [of x s] Cons.prems(3) by simp
  show ?case
  proof (cases "g x s")
    case (Inl es)
    with fg show ?thesis by simp
  next
    case (Inr s1)
    have "I s1" using Cons.prems(2) [of x s s1] Cons.prems(3) Inr by simp
    have "for_each f xs s1 = for_each g xs s1"
    proof (rule Cons.IH)
      show "\<And>y s'. y \<in> set xs \<Longrightarrow> I s' \<Longrightarrow> f y s' = g y s'"
        using Cons.prems(1) by simp
      show "\<And>y s' s''. y \<in> set xs \<Longrightarrow> I s' \<Longrightarrow> g y s' = Inr s'' \<Longrightarrow> I s''"
        using Cons.prems(2) by (meson list.set_intros(2))
      show "I s1" by fact
    qed
    with fg Inr show ?thesis by simp
  qed
qed

lemma store_step_args:
  "store_step c kr s = Inr s' \<Longrightarrow> args_are h tm s \<Longrightarrow> args_are h tm s'"
  using store_step_ok [OF store_step_Inr, of c kr s s'] by (auto simp: args_are_def)

lemma day_step_store:
  "day_step c d s = store_step c (d, offset_return (st_history s) c d) s"
  by (simp add: day_step_def store_step_def)

lemma calendar_step_store:
  assumes "map_of (tm_labels (st_tenor s)) (snd wk) \<noteq> None"
  shows "calendar_step offset end_date c wk s =
         store_step c (snd wk, calendar_value offset (st_history s) end_date c wk) s"
  using assms
  by (auto simp: calendar_step_def store_step_def calendar_value_def store_return_def
        bindE_def getitem_def raise_in_def Let_def split: sum.splits option.splits)

lemma for_each_store_result:
  "for_each (store_step c) plan s = Inr s' \<Longrightarrow>
   s' = s\<lparr>st_returns_df := fold (plan_set (st_tenor s) c) plan (st_returns_df s)\<rparr>"
  using for_each_store_ok [OF for_each_store_Inr, of c plan s s'] by simp

lemma column_step_plan:
  assumes lab: "list_all (\<lambda>k. map_of (tm_labels (st_tenor s)) k \<noteq> None) (tenor_keys (st_tenor s))"
  shows "column_step end_date c s =
         for_each (store_step c) (tenor_plan (st_history s) (st_tenor s) end_date c) s"
proof -
  define h where "h = st_history s"
  define tm where "tm = st_tenor s"
  have lab': "\<And>k. k \<in> set (tenor_keys tm) \<Longrightarrow> map_of (tm_labels tm) k \<noteq> None"
    using lab by (simp add: list_all_iff tm_def)
  have days: "for_each (day_step c) (tm_days tm) s' =
      for_each (store_step c) (map (\<lambda>d. (d, offset_return h c d)) (tm_days tm)) s'"
    if "args_are h tm s'" for s'
    unfolding for_each_map
    by (rule for_each_cong_inv [where I = "args_are h tm"])
       (use that in \<open>auto simp: day_step_store args_are_def dest: store_step_args [where h = h and tm = tm]\<close>)
  have weeks: "for_each (calendar_step offset end_date c) wks s' =
      for_each (store_step c) (map (\<lambda>wk. (snd wk, calendar_value offset h end_date c wk)) wks) s'"
    if "args_are h tm s'" and "snd ` set wks \<subseteq> set (tenor_keys tm)" for s' offset wks
    unfolding for_each_map
    by (rule for_each_cong_inv [where I = "args_are h tm"])
       (use that lab' in \<open>auto simp: calendar_step_store args_are_def dest: store_step_args [where h = h and tm = tm]\<close>)
  have inv: "args_are h tm s'" if "for_each (store_step c) plan s0 = Inr s'" "args_are h tm s0" for plan s0 s'
    using for_each_store_result [OF that(1)] that(2) by (simp add: args_are_def)
  have s: "args_are h tm s" by (simp add: args_are_def h_def tm_def)
  have w_sub: "snd ` set (tm_weeks tm) \<subseteq> set (tenor_keys tm)"
    and m_sub: "snd ` set (tm_months tm) \<subseteq> set (tenor_keys tm)"
    by (auto simp: tenor_keys_def)
  let ?D = "map (\<lambda>d. (d, offset_return h c d)) (tm_days tm)"
  let ?W = "map (\<lambda>wk. (snd wk, calendar_value weeks_offset h end_date c wk)) (tm_weeks tm)"
  let ?M = "map (\<lambda>wk. (snd wk, calendar_value months_offset h end_date c wk)) (tm_months tm)"
  show ?thesis
  proof (cases "for_each (store_step c) ?D s")
    case (Inl es)
    then show ?thesis
      unfolding column_step_def tenor_plan_def for_each_append h_def [symmetric] tm_def [symmetric]
      using days [OF s] by simp
  next
    case s1: (Inr s1)
    have a1: "args_are h tm s1" using inv [OF s1 s] .
    then have t1: "st_tenor s1 = tm" by (simp add: args_are_def)
    show ?thesis
    proof (cases "for_each (store_step c) ?W s1")
      case (Inl es)
      then show ?thesis
        unfolding column_step_def tenor_plan_def for_each_append h_def [symmetric] tm_def [symmetric]
        using days [OF s] s1 weeks [OF a1 w_sub] t1 by simp
    next
      case s2: (Inr s2)
      have a2: "args_are h tm s2" using inv [OF s2 a1] .
      then have t2: "st_tenor s2 = tm" by (simp add: args_are_def)
      show ?thesis
        unfolding column_step_def tenor_plan_def for_each_append h_def [symmetric] tm_def [symmetric]
        using days [OF s] s1 weeks [OF a1 w_sub] s2 weeks [OF a2 m_sub] t1 t2 by simp
    qed
  qed
qed

lemma map_fst_tenor_plan: "map fst (tenor_plan h tm e c) = tenor_keys tm"
  by (simp add: tenor_plan_def tenor_keys_def comp_def)

subsection \<open>The loop over the instruments\<close>

lemma column_step_ok:
  assumes "labels_ok tm" "args_are h tm s" "column_ok h tm e c"
  shows "column_step e c s = Inr (s\<lparr>st_returns_df := fill_column h tm e c (st_returns_df s)\<rparr>)"
proof -
  have "column_step e c s = for_each (store_step c) (tenor_plan h tm e c) s"
    using column_step_plan [of s e c] assms(1,2) by (simp add: labels_ok_def args_are_def)
  then show ?thesis
    using for_each_store_ok [of s "tenor_plan h tm e c" c] assms(2,3)
    by (simp add: column_ok_def args_are_def fill_column_def)
qed

lemma column_step_Inr:
  assumes "labels_ok tm" "args_are h tm s" "column_step e c s = Inr s'"
  shows "column_ok h tm e c"
proof -
  have "column_step e c s = for_each (store_step c) (tenor_plan h tm e c) s"
    using column_step_plan [of s e c] assms(1,2) by (simp add: labels_ok_def args_are_def)
  then show ?thesis
    using for_each_store_Inr [of c "tenor_plan h tm e c" s s'] assms(2,3)
    by (simp add: column_ok_def args_are_def)
qed

lemma for_each_columns_ok:
  assumes "labels_ok tm"
  shows "args_are h tm s \<Longrightarrow> list_all (column_ok h tm e) cs \<Longrightarrow>
    for_each (column_step e) cs s =
      Inr (s\<lparr>st_returns_df := fold (fill_column h tm e) cs (st_returns_df s)\<rparr>)"
proof (induction cs arbitrary: s)
  case Nil
  then show ?case by simp
next
  case (Cons c cs)
  let ?s1 = "s\<lparr>st_returns_df := fill_column h tm e c (st_returns_df s)\<rparr>"
  have 1: "column_step e c s = Inr ?s1"
    using column_step_ok [OF assms Cons.prems(1)] Cons.prems(2) by simp
  have "args_are h tm ?s1" using Cons.prems(1) by (simp add: args_are_def)
  from Cons.IH [OF this] Cons.prems(2) 1 show ?case by simp
qed

lemma for_each_columns_Inr:
  assumes "labels_ok tm"
  shows "args_are h tm s \<Longrightarrow> for_each (column_step e) cs s = Inr s' \<Longrightarrow>
    list_all (column_ok h tm e) cs"
proof (induction cs arbitrary: s)
  case Nil
  then show ?case by simp
next
  case (Cons c cs)
  from Cons.prems(2) obtain s1 where 1: "column_step e c s = Inr s1"
    and rest: "for_each (column_step e) cs s1 = Inr s'"
    by (auto split: sum.splits)
  have ok: "column_ok h tm e c" using column_step_Inr [OF assms Cons.prems(1) 1] .
  have "s1 = s\<lparr>st_returns_df := fill_column h tm e c (st_returns_df s)\<rparr>"
    using column_step_ok [OF assms Cons.prems(1) ok] 1 by simp
  then have "args_are h tm s1" using Cons.prems(1) by (simp add: args_are_def)
  from Cons.IH [OF this rest] ok show ?case by simp
qed

lemma fill_returns_Inr:
  assumes "labels_ok tm" "fill_returns h tm = Inr s"
  shows "h_index h \<noteq> [] \<and> list_all (column_ok h tm (last (h_index h))) (map fst (h_columns h))
    \<and> s = (s_init h tm)\<lparr>st_returns_df := filled h tm (last (h_index h))\<rparr>"
proof -
  have ne: "h_index h \<noteq> []"
    using assms(2) by (auto simp: fill_returns_def iloc_def Let_def split: if_splits)
  then have e: "iloc (h_index h) (- 1) = Inr (last (h_index h))"
    by (cases "h_index h" rule: rev_cases) (auto simp: iloc_def Let_def nat_diff_distrib')
  have run: "for_each (column_step (last (h_index h))) (map fst (h_columns h)) (s_init h tm) = Inr s"
    using assms(2) e by (simp add: fill_returns_def s_init_def)
  have a: "args_are h tm (s_init h tm)" by (simp add: args_are_def s_init_def)
  have ok: "list_all (column_ok h tm (last (h_index h))) (map fst (h_columns h))"
    using for_each_columns_Inr [OF assms(1) a run] .
  show ?thesis
    using ne ok for_each_columns_ok [OF assms(1) a ok] run by (simp add: filled_def)
qed

lemma fill_returns_ok:
  assumes "labels_ok tm" "h_index h \<noteq> []"
    "list_all (column_ok h tm (last (h_index h))) (map fst (h_columns h))"
  shows "fill_returns h tm = Inr ((s_init h tm)\<lparr>st_returns_df := filled h tm (last (h_index h))\<rparr>)"
proof -
  have e: "iloc (h_index h) (- 1) = Inr (last (h_index h))"
    using assms(2) by (cases "h_index h" rule: rev_cases) (auto simp: iloc_def Let_def nat_diff_distrib')
  have a: "args_are h tm (s_init h tm)" by (simp add: args_are_def s_init_def)
  show ?thesis
    using for_each_columns_ok [OF assms(1) a assms(3)] e
    by (simp add: fill_returns_def filled_def s_init_def [symmetric] Let_def)
qed

subsection \<open>The cells, columns and rows of the filled frame\<close>

lemma plan_set_cells_other:
  "r \<noteq> c \<or> l \<notin> (\<lambda>kr. label_of tm (fst kr)) ` set plan \<Longrightarrow>
   rf_cells (fold (plan_set tm c) plan rf) (r, l) = rf_cells rf (r, l)"
  by (induction plan arbitrary: rf) (auto simp: plan_set_def set_loc_def)

lemma plan_set_cells:
  "distinct (map (\<lambda>kr. label_of tm (fst kr)) plan) \<Longrightarrow> kr \<in> set plan \<Longrightarrow>
   rf_cells (fold (plan_set tm c) plan rf) (c, label_of tm (fst kr)) = Some (projr (snd kr))"
proof (induction plan arbitrary: rf)
  case Nil
  then show ?case by simp
next
  case (Cons x plan)
  show ?case
  proof (cases "kr = x")
    case True
    have "label_of tm (fst x) \<notin> (\<lambda>kr. label_of tm (fst kr)) ` set plan"
      using Cons.prems(1) by auto
    then have "rf_cells (fold (plan_set tm c) plan (plan_set tm c x rf)) (c, label_of tm (fst x))
        = rf_cells (plan_set tm c x rf) (c, label_of tm (fst x))"
      by (simp add: plan_set_cells_other)
    also have "\<dots> = Some (projr (snd x))"
      by (simp add: plan_set_def set_loc_def)
    finally show ?thesis using True by simp
  next
    case False
    then show ?thesis using Cons by simp
  qed
qed

lemma plan_set_columns:
  "rf_columns (fold (plan_set tm c) plan rf) =
   fold add_col (map (\<lambda>kr. label_of tm (fst kr)) plan) (rf_columns rf)"
  by (induction plan arbitrary: rf) (auto simp: plan_set_def set_loc_def add_col_def)

lemma plan_set_index:
  "c \<in> set (rf_index rf) \<Longrightarrow> rf_index (fold (plan_set tm c) plan rf) = rf_index rf"
  by (induction plan arbitrary: rf) (auto simp: plan_set_def set_loc_def)

lemma fold_add_col_new: "distinct (cs @ ls) \<Longrightarrow> fold add_col ls cs = cs @ ls"
  by (induction ls arbitrary: cs) (auto simp: add_col_def)

lemma fold_add_col_old: "set ls \<subseteq> set cs \<Longrightarrow> fold add_col ls cs = cs"
  by (induction ls arbitrary: cs) (auto simp: add_col_def)

lemma plan_labels: "map (\<lambda>kr. label_of tm (fst kr)) (tenor_plan h tm e c) = tenor_labels tm"
  using map_fst_tenor_plan [of h tm e c]
  by (simp add: tenor_labels_def flip: map_map [of "label_of tm" fst, unfolded comp_def])

lemma fill_column_cells_other:
  "r \<noteq> c \<Longrightarrow> rf_cells (fill_column h tm e c rf) (r, l) = rf_cells rf (r, l)"
  by (simp add: fill_column_def plan_set_cells_other)

lemma fill_column_cells:
  "distinct (tenor_labels tm) \<Longrightarrow> kr \<in> set (tenor_plan h tm e c) \<Longrightarrow>
   rf_cells (fill_column h tm e c rf) (c, label_of tm (fst kr)) = Some (projr (snd kr))"
  by (simp add: fill_column_def plan_set_cells plan_labels)

lemma fill_column_columns:
  "rf_columns (fill_column h tm e c rf) = fold add_col (tenor_labels tm) (rf_columns rf)"
  by (simp add: fill_column_def plan_set_columns plan_labels)

lemma fill_column_index:
  "c \<in> set (rf_index rf) \<Longrightarrow> rf_index (fill_column h tm e c rf) = rf_index rf"
  by (simp add: fill_column_def plan_set_index)

lemma fold_fill_cells_other:
  "r \<notin> set cs \<Longrightarrow> rf_cells (fold (fill_column h tm e) cs rf) (r, l) = rf_cells rf (r, l)"
  by (induction cs arbitrary: rf) (auto simp: fill_column_cells_other)

lemma fold_fill_cells:
  "distinct (tenor_labels tm) \<Longrightarrow> distinct cs \<Longrightarrow> c \<in> set cs \<Longrightarrow>
   kr \<in> set (tenor_plan h tm e c) \<Longrightarrow>
   rf_cells (fold (fill_column h tm e) cs rf) (c, label_of tm (fst kr)) = Some (projr (snd kr))"
proof (induction cs arbitrary: rf)
  case Nil
  then show ?case by simp
next
  case (Cons x cs)
  show ?case
  proof (cases "c = x")
    case True
    then have "c \<notin> set cs" using Cons.prems(2) by simp
    then show ?thesis
      using True fold_fill_cells_other [of c cs h tm e "fill_column h tm e c rf"]
        fill_column_cells [OF Cons.prems(1) Cons.prems(4), of rf]
      by simp
  next
    case False
    then show ?thesis using Cons by simp
  qed
qed

lemma fold_fill_columns_same:
  "rf_columns rf = tenor_labels tm \<Longrightarrow>
   rf_columns (fold (fill_column h tm e) cs rf) = tenor_labels tm"
  by (induction cs arbitrary: rf) (auto simp: fill_column_columns fold_add_col_old)

lemma filled_columns:
  assumes "distinct (tenor_labels tm)" "h_columns h \<noteq> []"
  shows "rf_columns (filled h tm e) = tenor_labels tm"
proof -
  obtain c cs where cs: "map fst (h_columns h) = c # cs"
    using assms(2) by (cases "h_columns h") auto
  have "rf_columns (fill_column h tm e c (st_returns_df (s_init h tm))) = tenor_labels tm"
    using assms(1) by (simp add: fill_column_columns s_init_def fold_add_col_new)
  then show ?thesis
    by (simp add: filled_def cs fold_fill_columns_same)
qed

lemma fold_fill_index:
  "set cs \<subseteq> set (rf_index rf) \<Longrightarrow> rf_index (fold (fill_column h tm e) cs rf) = rf_index rf"
  by (induction cs arbitrary: rf) (auto simp: fill_column_index)

lemma filled_index: "rf_index (filled h tm e) = map fst (h_columns h)"
  by (simp add: filled_def fold_fill_index s_init_def)

lemma filled_cells:
  assumes "distinct (tenor_labels tm)" "distinct (map fst (h_columns h))"
    "c \<in> fst ` set (h_columns h)" "kr \<in> set (tenor_plan h tm e c)"
  shows "rf_cells (filled h tm e) (c, label_of tm (fst kr)) = Some (projr (snd kr))"
  unfolding filled_def using assms by (intro fold_fill_cells) auto

subsection \<open>The dictionaries of the result\<close>

lemma map_of_fold_update:
  "map_of (fold (\<lambda>kv d. AList.update (fst kv) (snd kv) d) kvs d) k =
   (case map_of (rev kvs) k of Some v \<Rightarrow> Some v | None \<Rightarrow> map_of d k)"
  by (induction kvs arbitrary: d) (auto simp: update_conv' map_add_def split: option.splits)

lemma update_fresh: "k \<notin> fst ` set d \<Longrightarrow> AList.update k v d = d @ [(k, v)]"
  by (induction d) auto

lemma fold_update_fresh:
  "distinct (map fst kvs) \<Longrightarrow> fst ` set kvs \<inter> fst ` set d = {} \<Longrightarrow>
   fold (\<lambda>kv d. AList.update (fst kv) (snd kv) d) kvs d = d @ kvs"
proof (induction kvs arbitrary: d)
  case Nil
  then show ?case by simp
next
  case (Cons kv kvs)
  have 1: "AList.update (fst kv) (snd kv) d = d @ [kv]"
    using Cons.prems(2) by (simp add: update_fresh)
  have "fst ` set kvs \<inter> fst ` set (d @ [kv]) = {}"
    using Cons.prems by auto
  with Cons.IH [of "d @ [kv]"] Cons.prems(1) 1 show ?case by simp
qed

lemma to_dict_list_distinct:
  assumes "distinct (rf_index rf)"
  shows "to_dict_list rf = map (\<lambda>r. (r, map (\<lambda>c. rf_cells rf (r, c)) (rf_columns rf))) (rf_index rf)"
proof -
  let ?g = "\<lambda>r. (r, map (\<lambda>c. rf_cells rf (r, c)) (rf_columns rf))"
  have "to_dict_list rf = fold (\<lambda>kv d. AList.update (fst kv) (snd kv) d) (map ?g (rf_index rf)) []"
    by (simp add: to_dict_list_def fold_map comp_def)
  also have "\<dots> = [] @ map ?g (rf_index rf)"
    using assms by (intro fold_update_fresh) (simp_all add: comp_def)
  finally show ?thesis by simp
qed

lemma asset_dict_fold:
  "asset_dict tenors (r, map g tenors) =
   fold (\<lambda>kv d. AList.update (fst kv) (snd kv) d) (map (\<lambda>l. (l, cell_val (g l))) tenors)
     [(''label'', JStr r)]"
proof -
  have z: "zip tenors (map g tenors) = map (\<lambda>l. (l, g l)) tenors"
    by (induction tenors) auto
  show ?thesis
    by (simp add: asset_dict_def z fold_map comp_def)
qed

lemma asset_dict_lookup:
  assumes "l \<in> set tenors"
  shows "map_of (asset_dict tenors (r, map g tenors)) l = Some (cell_val (g l))"
proof -
  have "map_of (rev (map (\<lambda>l. (l, cell_val (g l))) tenors)) l = Some (cell_val (g l))"
    using assms by (simp add: rev_map map_of_map_restrict)
  then show ?thesis
    by (simp add: asset_dict_fold map_of_fold_update)
qed

lemma asset_dict_list:
  assumes "distinct tenors" "''label'' \<notin> set tenors"
  shows "asset_dict tenors (r, map g tenors) =
         (''label'', JStr r) # map (\<lambda>l. (l, cell_val (g l))) tenors"
proof -
  have "fold (\<lambda>kv d. AList.update (fst kv) (snd kv) d) (map (\<lambda>l. (l, cell_val (g l))) tenors)
     [(''label'', JStr r)] = [(''label'', JStr r)] @ map (\<lambda>l. (l, cell_val (g l))) tenors"
    using assms by (intro fold_update_fresh) (auto simp: comp_def)
  then show ?thesis by (simp add: asset_dict_fold)
qed

lemma build_data_nth:
  assumes "distinct (rf_index rf)" "i < length (rf_index rf)"
  shows "rd_data (build_returns_dict rf) ! i =
         asset_dict (rf_columns rf) (rf_index rf ! i, map (\<lambda>c. rf_cells rf (rf_index rf ! i, c)) (rf_columns rf))"
  using assms by (simp add: build_returns_dict_def to_dict_list_distinct Let_def)

lemma build_data_length:
  assumes "distinct (rf_index rf)"
  shows "length (rd_data (build_returns_dict rf)) = length (rf_index rf)"
  using assms by (simp add: build_returns_dict_def to_dict_list_distinct Let_def)

subsection \<open>Prices and returns\<close>

lemma get_returns_eq:
  "get_returns h tm =
     (case fill_returns h tm of Inl es \<Rightarrow> Inl (fst es)
      | Inr s \<Rightarrow> Inr (build_returns_dict (st_returns_df s)))"
  by (simp add: get_returns_def get_returns_run_def split: sum.splits)

lemma h_series_member:
  "distinct (map fst (h_columns h)) \<Longrightarrow> (c, ps) \<in> set (h_columns h) \<Longrightarrow> h_series h c = Inr ps"
  by (simp add: h_series_def getitem_def)

lemma iloc_last: "xs \<noteq> [] \<Longrightarrow> iloc xs (- 1) = Inr (last xs)"
  by (cases xs rule: rev_cases) (auto simp: iloc_def Let_def nat_diff_distrib')

lemma iloc_back:
  "0 \<le> d \<Longrightarrow> d < int (length xs) \<Longrightarrow> iloc xs (- d - 1) = Inr (xs ! (length xs - 1 - nat d))"
proof -
  assume a: "0 \<le> d" "d < int (length xs)"
  then have "nat (int (length xs) + (- d - 1)) = length xs - 1 - nat d" by linarith
  with a show ?thesis by (simp add: iloc_def Let_def)
qed

lemma iloc_back_short: "int (length xs) \<le> d \<Longrightarrow> iloc xs (- d - 1) = Inl IndexError"
  by (simp add: iloc_def Let_def)

lemma iloc_error: "iloc xs i = Inl e \<Longrightarrow> e = IndexError"
  by (simp add: iloc_def Let_def split: if_splits)

lemma iloc_nat: "j < length xs \<Longrightarrow> iloc xs (int j) = Inr (xs ! j)"
  by (simp add: iloc_def Let_def)

lemma offset_return_value:
  assumes "h_series h c = Inr ps" "0 \<le> d" "d < int (length ps)"
  shows "offset_return h c d = Inr (pct_change (last ps) (ps ! (length ps - 1 - nat d)))"
proof -
  have "ps \<noteq> []" using assms by auto
  then show ?thesis
    using assms by (simp add: offset_return_def bindE_def iloc_last iloc_back pct_change_def)
qed

lemma offset_return_short:
  assumes "h_series h c = Inr ps" "int (length ps) \<le> d"
  shows "offset_return h c d = Inl IndexError"
  using assms iloc_error [of ps "- 1"]
  by (auto simp: offset_return_def bindE_def iloc_back_short split: sum.splits)

lemma offset_return_error:
  assumes "h_series h c = Inr ps" "offset_return h c d = Inl e"
  shows "e = IndexError"
  using assms by (auto simp: offset_return_def bindE_def split: sum.splits dest: iloc_error)

lemma index_of_None: "index_of x xs = None \<longleftrightarrow> x \<notin> set xs"
  by (induction xs) auto

lemma index_of_Some: "index_of x xs = Some j \<Longrightarrow> j < length xs \<and> xs ! j = x"
  by (induction xs arbitrary: j) (auto split: if_splits)

lemma index_of_last: "distinct xs \<Longrightarrow> xs \<noteq> [] \<Longrightarrow> index_of (last xs) xs = Some (length xs - 1)"
  by (induction xs) (auto simp: index_of_None [symmetric])

lemma calendar_value_eq:
  assumes "h_series h c = Inr ps" "length ps = length (h_index h)" "distinct (h_index h)"
    "h_index h \<noteq> []"
  shows "calendar_value offset h (last (h_index h)) c wk =
    (case index_of (offset (- fst wk) (last (h_index h))) (h_index h) of
       Some j \<Rightarrow> Inr (pct_change (last ps) (ps ! j))
     | None \<Rightarrow> offset_return h c (snd wk))"
proof -
  have ne: "ps \<noteq> []" using assms(2,4) by auto
  have "iloc ps (int (length ps - 1)) = Inr (ps ! (length ps - 1))"
    using ne by (intro iloc_nat) simp
  then have e: "h_loc h (last (h_index h)) c = Inr (last ps)"
    using assms(1,2) index_of_last [OF assms(3,4)]
    by (simp add: h_loc_def bindE_def last_conv_nth [OF ne])
  show ?thesis
  proof (cases "index_of (offset (- fst wk) (last (h_index h))) (h_index h)")
    case None
    then show ?thesis
      using assms(1) e by (simp add: calendar_value_def calendar_return_def bindE_def h_loc_def)
  next
    case (Some j)
    then have "j < length ps" using index_of_Some [OF Some] assms(2) by simp
    then show ?thesis
      using assms(1) e Some
      by (simp add: calendar_value_def calendar_return_def bindE_def h_loc_def iloc_nat pct_change_def)
  qed
qed

subsection \<open>The arguments are only read\<close>

lemma raise_in_store_keeps: "keeps_args s (raise_in s (store_return c k rhs s))"
  by (auto simp: keeps_args_def raise_in_def store_return_def bindE_def split: sum.splits)

lemma day_step_keeps: "keeps_args s (day_step c d s)"
  by (simp add: day_step_def raise_in_store_keeps)

lemma calendar_step_keeps: "keeps_args s (calendar_step offset e c wk s)"
proof (cases "store_return c (snd wk)
    (calendar_return (st_history s) e (offset (- fst wk) e) c) s")
  case (Inl a)
  then show ?thesis
    by (simp add: calendar_step_def Let_def raise_in_store_keeps)
next
  case (Inr s')
  then have "keeps_args s (Inr s')"
    using raise_in_store_keeps [of s c "snd wk" "calendar_return (st_history s) e (offset (- fst wk) e) c"]
    by (simp add: raise_in_def)
  with Inr show ?thesis by (simp add: calendar_step_def Let_def)
qed

lemma keeps_args_trans:
  "keeps_args s (Inr s1) \<Longrightarrow> keeps_args s1 r \<Longrightarrow> keeps_args s r"
  by (auto simp: keeps_args_def split: sum.splits)

lemma for_each_keeps:
  assumes "\<And>x s. keeps_args s (f x s)"
  shows "keeps_args s (for_each f xs s)"
proof (induction xs arbitrary: s)
  case Nil
  then show ?case by (simp add: keeps_args_def)
next
  case (Cons x xs)
  show ?case
  proof (cases "f x s")
    case (Inl es)
    then show ?thesis using assms [of s x] by simp
  next
    case (Inr s1)
    then show ?thesis
      using keeps_args_trans [of s s1 "for_each f xs s1"] assms [of s x] Cons.IH [of s1] by simp
  qed
qed

lemma column_step_keeps: "keeps_args s (column_step e c s)"
proof -
  let ?r1 = "for_each (day_step c) (tm_days (st_tenor s)) s"
  have k1: "keeps_args s ?r1" by (rule for_each_keeps) (rule day_step_keeps)
  show ?thesis
  proof (cases ?r1)
    case (Inl es)
    with k1 show ?thesis by (simp add: column_step_def)
  next
    case s1: (Inr s1)
    let ?r2 = "for_each (calendar_step weeks_offset e c) (tm_weeks (st_tenor s1)) s1"
    have k2: "keeps_args s1 ?r2" by (rule for_each_keeps) (rule calendar_step_keeps)
    show ?thesis
    proof (cases ?r2)
      case (Inl es)
      with k1 k2 s1 keeps_args_trans [of s s1 ?r2] show ?thesis by (simp add: column_step_def)
    next
      case s2: (Inr s2)
      let ?r3 = "for_each (calendar_step months_offset e c) (tm_months (st_tenor s2)) s2"
      have k3: "keeps_args s2 ?r3" by (rule for_each_keeps) (rule calendar_step_keeps)
      have "keeps_args s (Inr s2)" using k1 k2 s1 s2 keeps_args_trans [of s s1 ?r2] by simp
      from keeps_args_trans [OF this k3] s1 s2 show ?thesis by (simp add: column_step_def)
    qed
  qed
qed

lemma fill_returns_keeps: "keeps_args (s_init h tm) (fill_returns h tm)"
proof (cases "iloc (h_index h) (- 1)")
  case (Inl e)
  then show ?thesis by (simp add: fill_returns_def keeps_args_def s_init_def)
next
  case (Inr e)
  have "keeps_args (s_init h tm) (for_each (column_step e) (map fst (h_columns h)) (s_init h tm))"
    by (rule for_each_keeps) (rule column_step_keeps)
  with Inr show ?thesis by (simp add: fill_returns_def s_init_def)
qed

text \<open>
  Claim C9. Whatever the history and the tenor mappings, and whether \<^verbatim>\<open>get_returns\<close> returns
  or raises, the history and the tenor mappings it was called with are unchanged in the
  state it leaves.
\<close>

theorem get_returns_leaves_arguments:
  "st_history (snd (get_returns_run h tm)) = h \<and> st_tenor (snd (get_returns_run h tm)) = tm"
  using fill_returns_keeps [of h tm]
  by (auto simp: get_returns_run_def keeps_args_def s_init_def split: sum.splits)

subsection \<open>The values under the tenor labels\<close>

lemma column_prices:
  assumes "wf_history h" "(c, ps) \<in> set (h_columns h)"
  shows "h_series h c = Inr ps \<and> length ps = length (h_index h)"
  using assms by (auto simp: wf_history_def h_series_member list_all_iff)

lemma get_returns_Inr:
  assumes "labels_ok tm" "get_returns h tm = Inr out"
  shows "h_index h \<noteq> [] \<and>
    list_all (column_ok h tm (last (h_index h))) (map fst (h_columns h)) \<and>
    out = build_returns_dict (filled h tm (last (h_index h)))"
proof -
  from assms(2) obtain s where s: "fill_returns h tm = Inr s"
    and out: "out = build_returns_dict (st_returns_df s)"
    by (auto simp: get_returns_eq split: sum.splits)
  from fill_returns_Inr [OF assms(1) s] out show ?thesis by simp
qed

lemma get_returns_ok:
  assumes "labels_ok tm" "h_index h \<noteq> []"
    "list_all (column_ok h tm (last (h_index h))) (map fst (h_columns h))"
  shows "get_returns h tm = Inr (build_returns_dict (filled h tm (last (h_index h))))"
  using fill_returns_ok [OF assms] by (simp add: get_returns_eq)

lemma built_lookup:
  assumes wf: "wf_history h" and wt: "wf_tenor tm"
    and i: "i < length (h_columns h)" and c: "h_columns h ! i = (c, ps)"
    and kr: "kr \<in> set (tenor_plan h tm e c)"
  shows "map_of (rd_data (build_returns_dict (filled h tm e)) ! i) (label_of tm (fst kr)) =
         Some (JNum (projr (snd kr)))"
proof -
  let ?rf = "filled h tm e"
  have dl: "distinct (tenor_labels tm)" using wt by (simp add: wf_tenor_def)
  have dc: "distinct (map fst (h_columns h))" using wf by (simp add: wf_history_def)
  have ne: "h_columns h \<noteq> []" using i by auto
  have idx: "rf_index ?rf = map fst (h_columns h)" by (rule filled_index)
  have cols: "rf_columns ?rf = tenor_labels tm" using filled_columns [OF dl ne] .
  have ci: "rf_index ?rf ! i = c" using i c by (simp add: idx)
  have mem: "c \<in> fst ` set (h_columns h)"
    using i c by (metis fst_conv image_eqI nth_mem)
  have l: "label_of tm (fst kr) \<in> set (tenor_labels tm)"
    using kr plan_labels [of tm h e c, symmetric] by auto
  have "rd_data (build_returns_dict ?rf) ! i =
      asset_dict (tenor_labels tm) (c, map (\<lambda>l. rf_cells ?rf (c, l)) (tenor_labels tm))"
    using build_data_nth [of ?rf i] dc i by (simp add: idx cols ci [unfolded idx])
  then show ?thesis
    using asset_dict_lookup [OF l, of c "\<lambda>l. rf_cells ?rf (c, l)"]
      filled_cells [OF dl dc mem kr]
    by (simp add: cell_val_def)
qed


lemma sufficient_column_ok:
  assumes wf: "wf_history h" and lab: "labels_ok tm" and suf: "sufficient_history h tm"
    and mem: "(c, ps) \<in> set (h_columns h)"
  shows "column_ok h tm (last (h_index h)) c"
proof -
  let ?e = "last (h_index h)"
  note ser = column_prices [OF wf mem]
  have ne: "h_index h \<noteq> []" using suf by (simp add: sufficient_history_def Let_def)
  have di: "distinct (h_index h)" using wf by (simp add: wf_history_def)
  have days: "\<not> isl (offset_return h c d)" if "d \<in> set (tm_days tm)" for d
    using offset_return_value [of h c ps d] ser suf that
    by (auto simp: sufficient_history_def Let_def list_all_iff)
  have cal: "\<not> isl (calendar_value offset h ?e c wk)"
    if "offset (- fst wk) ?e \<in> set (h_index h) \<or> (0 \<le> snd wk \<and> snd wk < int (length (h_index h)))"
    for offset wk
  proof (cases "index_of (offset (- fst wk) ?e) (h_index h)")
    case None
    then have "0 \<le> snd wk \<and> snd wk < int (length ps)"
      using that ser by (simp add: index_of_None)
    then show ?thesis
      using calendar_value_eq [of h c ps offset wk] ser di ne None
        offset_return_value [of h c ps "snd wk"] by simp
  next
    case (Some j)
    then show ?thesis
      using calendar_value_eq [of h c ps offset wk] ser di ne by simp
  qed
  have labs: "map_of (tm_labels tm) k \<noteq> None" if "k \<in> set (tenor_keys tm)" for k
    using lab that by (simp add: labels_ok_def list_all_iff)
  have "plan_ok tm kr" if "kr \<in> set (tenor_plan h tm ?e c)" for kr
  proof -
    have "fst kr \<in> set (tenor_keys tm)"
      using that map_fst_tenor_plan [of h tm ?e c] by (metis image_eqI set_map)
    moreover have "\<not> isl (snd kr)"
      using that days cal suf
      by (auto simp: tenor_plan_def sufficient_history_def Let_def list_all_iff)
    ultimately show ?thesis using labs by (simp add: plan_ok_def)
  qed
  then show ?thesis by (simp add: column_ok_def list_all_iff)
qed

lemma calendar_value_claimed:
  assumes wf: "wf_history h" and mem: "(c, ps) \<in> set (h_columns h)" and ne: "h_index h \<noteq> []"
    and "offset (- fst wk) (last (h_index h)) \<in> set (h_index h) \<or>
         (0 \<le> snd wk \<and> snd wk < int (length (h_index h)))"
  shows "calendar_value offset h (last (h_index h)) c wk =
    Inr (claimed_calendar_return h ps (offset (- fst wk) (last (h_index h))) (snd wk))"
proof -
  note ser = column_prices [OF wf mem]
  have di: "distinct (h_index h)" using wf by (simp add: wf_history_def)
  show ?thesis
  proof (cases "index_of (offset (- fst wk) (last (h_index h))) (h_index h)")
    case None
    then have "0 \<le> snd wk \<and> snd wk < int (length ps)"
      using assms(4) ser by (simp add: index_of_None)
    then show ?thesis
      using calendar_value_eq [of h c ps offset wk] ser di ne None
        offset_return_value [of h c ps "snd wk"]
      by (simp add: claimed_calendar_return_def)
  next
    case (Some j)
    then show ?thesis
      using calendar_value_eq [of h c ps offset wk] ser di ne
      by (simp add: claimed_calendar_return_def)
  qed
qed

text \<open>
  Claim C2. For a well-formed history and tenor specification with enough history,
  \<^verbatim>\<open>get_returns\<close> returns, and for every week count (and likewise every month count) mapped to
  the day-count key \<open>k\<close> the value under the label of \<open>k\<close> is the return from the price at
  the calendar date when the index has that date, and the \<open>k\<close>-row index-offset return
  when it has not.
\<close>

theorem get_returns_calendar_with_fallback:
  assumes wf: "wf_history h" and wt: "wf_tenor tm" and suf: "sufficient_history h tm"
    and i: "i < length (h_columns h)" and c: "h_columns h ! i = (c, ps)"
  shows "\<exists>out. get_returns h tm = Inr out \<and>
    (\<forall>wk \<in> set (tm_weeks tm).
       map_of (rd_data out ! i) (label_of tm (snd wk)) =
         Some (JNum (claimed_calendar_return h ps
           (weeks_offset (- fst wk) (last (h_index h))) (snd wk)))) \<and>
    (\<forall>wk \<in> set (tm_months tm).
       map_of (rd_data out ! i) (label_of tm (snd wk)) =
         Some (JNum (claimed_calendar_return h ps
           (months_offset (- fst wk) (last (h_index h))) (snd wk))))"
proof -
  let ?e = "last (h_index h)"
  let ?out = "build_returns_dict (filled h tm ?e)"
  have lab: "labels_ok tm" using wt by (simp add: wf_tenor_def)
  have ne: "h_index h \<noteq> []" using suf by (simp add: sufficient_history_def Let_def)
  have mem: "(c, ps) \<in> set (h_columns h)" using i c by (metis nth_mem)
  have "list_all (column_ok h tm ?e) (map fst (h_columns h))"
    using sufficient_column_ok [OF wf lab suf] by (auto simp: list_all_iff)
  then have run: "get_returns h tm = Inr ?out" using get_returns_ok [OF lab ne] by simp
  have w: "map_of (rd_data ?out ! i) (label_of tm (snd wk)) =
         Some (JNum (claimed_calendar_return h ps (weeks_offset (- fst wk) ?e) (snd wk)))"
    if "wk \<in> set (tm_weeks tm)" for wk
  proof -
    have "(snd wk, calendar_value weeks_offset h ?e c wk) \<in> set (tenor_plan h tm ?e c)"
      using that by (auto simp: tenor_plan_def)
    from built_lookup [OF wf wt i c this]
    show ?thesis
      using calendar_value_claimed [OF wf mem ne, of weeks_offset wk] suf that
      by (auto simp: sufficient_history_def Let_def list_all_iff)
  qed
  have m: "map_of (rd_data ?out ! i) (label_of tm (snd wk)) =
         Some (JNum (claimed_calendar_return h ps (months_offset (- fst wk) ?e) (snd wk)))"
    if "wk \<in> set (tm_months tm)" for wk
  proof -
    have "(snd wk, calendar_value months_offset h ?e c wk) \<in> set (tenor_plan h tm ?e c)"
      using that by (auto simp: tenor_plan_def)
    from built_lookup [OF wf wt i c this]
    show ?thesis
      using calendar_value_claimed [OF wf mem ne, of months_offset wk] suf that
      by (auto simp: sufficient_history_def Let_def list_all_iff)
  qed
  from run w m show ?thesis by blast
qed

subsection \<open>The exceptions raised, and the shape of the result\<close>

lemma for_each_store_error:
  "for_each (store_step c) plan s = Inl (e, s') \<Longrightarrow>
   \<exists>kr \<in> set plan. snd kr = Inl e \<or> (map_of (tm_labels (st_tenor s)) (fst kr) = None \<and> e = KeyError)"
proof (induction plan arbitrary: s)
  case Nil
  then show ?case by simp
next
  case (Cons kr plan)
  show ?case
  proof (cases "store_step c kr s")
    case (Inl es)
    with Cons.prems have "store_step c kr s = Inl (e, s')" by simp
    then have "snd kr = Inl e \<or> (map_of (tm_labels (st_tenor s)) (fst kr) = None \<and> e = KeyError)"
      by (cases "snd kr")
         (auto simp: store_step_def raise_in_def store_return_def bindE_def getitem_def
            split: option.splits sum.splits)
    then show ?thesis by auto
  next
    case (Inr s1)
    then have "st_tenor s1 = st_tenor s"
      using store_step_args [OF Inr, of "st_history s" "st_tenor s"] by (simp add: args_are_def)
    moreover from Cons.prems Inr have "for_each (store_step c) plan s1 = Inl (e, s')" by simp
    ultimately show ?thesis using Cons.IH [of s1] by auto
  qed
qed

lemma tenor_plan_error:
  assumes "h_series h c = Inr ps" "kr \<in> set (tenor_plan h tm e c)" "snd kr = Inl er"
  shows "er = IndexError"
  using assms offset_return_error [of h c ps _ er]
  by (auto simp: tenor_plan_def calendar_value_def split: sum.splits)

lemma column_step_error:
  assumes "labels_ok tm" "args_are h tm s" "c \<in> fst ` set (h_columns h)"
    "column_step e c s = Inl (er, s')"
  shows "er = IndexError"
proof -
  obtain ps where ps: "h_series h c = Inr ps"
    using assms(3) by (cases "map_of (h_columns h) c")
      (auto simp: h_series_def getitem_def map_of_eq_None_iff)
  have "column_step e c s = for_each (store_step c) (tenor_plan h tm e c) s"
    using column_step_plan [of s e c] assms(1,2) by (simp add: labels_ok_def args_are_def)
  with assms(4) obtain kr where kr: "kr \<in> set (tenor_plan h tm e c)"
    and d: "snd kr = Inl er \<or> (map_of (tm_labels (st_tenor s)) (fst kr) = None \<and> er = KeyError)"
    using for_each_store_error [of c "tenor_plan h tm e c" s er s'] by auto
  have "fst kr \<in> set (tenor_keys tm)"
    using kr map_fst_tenor_plan [of h tm e c] by (metis image_eqI set_map)
  then have "map_of (tm_labels (st_tenor s)) (fst kr) \<noteq> None"
    using assms(1,2) by (simp add: labels_ok_def list_all_iff args_are_def)
  with d have "snd kr = Inl er" by simp
  from tenor_plan_error [OF ps kr this] show ?thesis .
qed

lemma for_each_columns_error:
  assumes "labels_ok tm"
  shows "args_are h tm s \<Longrightarrow> set cs \<subseteq> fst ` set (h_columns h) \<Longrightarrow>
    for_each (column_step e) cs s = Inl (er, s') \<Longrightarrow> er = IndexError"
proof (induction cs arbitrary: s)
  case Nil
  then show ?case by simp
next
  case (Cons c cs)
  show ?case
  proof (cases "column_step e c s")
    case (Inl es)
    with Cons.prems(3) have "column_step e c s = Inl (er, s')" by simp
    from column_step_error [OF assms Cons.prems(1) _ this] Cons.prems(2) show ?thesis by simp
  next
    case (Inr s1)
    have ok: "column_ok h tm e c" using column_step_Inr [OF assms Cons.prems(1) Inr] .
    have "s1 = s\<lparr>st_returns_df := fill_column h tm e c (st_returns_df s)\<rparr>"
      using column_step_ok [OF assms Cons.prems(1) ok] Inr by simp
    then have a: "args_are h tm s1" using Cons.prems(1) by (simp add: args_are_def)
    from Cons.prems(3) Inr have "for_each (column_step e) cs s1 = Inl (er, s')" by simp
    from Cons.IH [OF a _ this] Cons.prems(2) show ?thesis by simp
  qed
qed

lemma get_returns_error:
  assumes "labels_ok tm" "get_returns h tm = Inl er"
  shows "er = IndexError"
proof -
  from assms(2) obtain s where f: "fill_returns h tm = Inl (er, s)"
    by (auto simp: get_returns_eq split: sum.splits)
  show ?thesis
  proof (cases "iloc (h_index h) (- 1)")
    case (Inl e)
    with f iloc_error [OF Inl] show ?thesis by (simp add: fill_returns_def)
  next
    case (Inr e)
    have a: "args_are h tm (s_init h tm)" by (simp add: args_are_def s_init_def)
    have "for_each (column_step e) (map fst (h_columns h)) (s_init h tm) = Inl (er, s)"
      using f Inr by (simp add: fill_returns_def s_init_def)
    from for_each_columns_error [OF assms(1) a _ this] show ?thesis by simp
  qed
qed

text \<open>
  Claim C3, as amended. For a history with at least one instrument column whose number of
  rows is at most the largest requested day-count, \<^verbatim>\<open>get_returns\<close> raises \<^verbatim>\<open>IndexError\<close>
  and returns no result.
\<close>

theorem get_returns_insufficient_history:
  assumes "wf_history h" and "labels_ok tm" and "h_columns h \<noteq> []"
    and "tm_days tm \<noteq> []" and "int (length (h_index h)) \<le> Max (set (tm_days tm))"
  shows "get_returns h tm = Inl IndexError"
proof (cases "get_returns h tm")
  case (Inl er)
  with get_returns_error [OF assms(2) Inl] show ?thesis by simp
next
  case (Inr out)
  let ?e = "last (h_index h)"
  define d where "d = Max (set (tm_days tm))"
  have d: "d \<in> set (tm_days tm)" using assms(4) by (simp add: d_def)
  obtain c ps where mem: "(c, ps) \<in> set (h_columns h)"
    using assms(3) by (cases "h_columns h") auto
  note ser = column_prices [OF assms(1) mem]
  note r = get_returns_Inr [OF assms(2) Inr]
  have "column_ok h tm ?e c" using r mem by (force simp: list_all_iff)
  moreover have "(d, offset_return h c d) \<in> set (tenor_plan h tm ?e c)"
    using d by (auto simp: tenor_plan_def)
  ultimately have "\<not> isl (offset_return h c d)"
    by (auto simp: column_ok_def list_all_iff plan_ok_def)
  moreover have "offset_return h c d = Inl IndexError"
    using ser assms(5) by (intro offset_return_short) (auto simp: d_def)
  ultimately show ?thesis by simp
qed

lemma map_pair_zip:
  "(\<And>l. l \<in> set ls \<Longrightarrow> f l = g l) \<Longrightarrow> map (\<lambda>l. (l, f l)) ls = zip ls (map g ls)"
  by (induction ls) auto

text \<open>
  Claim C4, as amended. When \<^verbatim>\<open>get_returns\<close> returns for a history with at least one
  instrument column and a tenor specification none of whose labels is the string \<open>label\<close>:
  \<open>labels\<close> lists the tenor labels in the order of declaration (day-counts, then weeks,
  then months), \<open>data\<close> has one record per instrument column, in the order of the columns,
  and each record is the \<open>label\<close> field holding the instrument's name followed by one
  number per tenor label.
\<close>

theorem get_returns_output_shape:
  assumes wf: "wf_history h" and wt: "wf_tenor tm"
    and nl: "''label'' \<notin> set (tenor_labels tm)"
    and ne: "h_columns h \<noteq> []" and run: "get_returns h tm = Inr out"
  shows "rd_labels out =
      map (label_of tm) (tm_days tm @ map snd (tm_weeks tm) @ map snd (tm_months tm)) \<and>
    length (rd_data out) = length (h_columns h) \<and>
    (\<forall>i < length (h_columns h). \<exists>vs. length vs = length (rd_labels out) \<and>
       rd_data out ! i =
         (''label'', JStr (fst (h_columns h ! i))) # zip (rd_labels out) (map JNum vs))"
proof -
  let ?e = "last (h_index h)"
  let ?rf = "filled h tm ?e"
  have lab: "labels_ok tm" using wt by (simp add: wf_tenor_def)
  have dl: "distinct (tenor_labels tm)" using wt by (simp add: wf_tenor_def)
  have dc: "distinct (map fst (h_columns h))" using wf by (simp add: wf_history_def)
  note r = get_returns_Inr [OF lab run]
  then have out: "out = build_returns_dict ?rf" by simp
  have idx: "rf_index ?rf = map fst (h_columns h)" by (rule filled_index)
  have cols: "rf_columns ?rf = tenor_labels tm" using filled_columns [OF dl ne] .
  have labels: "rd_labels out = tenor_labels tm"
    by (simp add: out build_returns_dict_def Let_def cols)
  have len: "length (rd_data out) = length (h_columns h)"
    using build_data_length [of ?rf] dc by (simp add: out idx)
  have rec: "\<exists>vs. length vs = length (rd_labels out) \<and>
       rd_data out ! i =
         (''label'', JStr (fst (h_columns h ! i))) # zip (rd_labels out) (map JNum vs)"
    if i: "i < length (h_columns h)" for i
  proof -
    obtain c ps where c: "h_columns h ! i = (c, ps)" by (cases "h_columns h ! i")
    have mem: "c \<in> fst ` set (h_columns h)" using i c by (metis fst_conv image_eqI nth_mem)
    let ?g = "\<lambda>l. rf_cells ?rf (c, l)"
    let ?vs = "map (\<lambda>l. the (?g l)) (tenor_labels tm)"
    have "rd_data out ! i = asset_dict (tenor_labels tm) (c, map ?g (tenor_labels tm))"
      using build_data_nth [of ?rf i] dc i c by (simp add: out idx cols)
    also have "\<dots> = (''label'', JStr c) # map (\<lambda>l. (l, cell_val (?g l))) (tenor_labels tm)"
      using asset_dict_list [OF dl nl] .
    also have "map (\<lambda>l. (l, cell_val (?g l))) (tenor_labels tm) =
        zip (tenor_labels tm) (map JNum ?vs)"
    proof -
      have "cell_val (?g l) = JNum (the (?g l))" if "l \<in> set (tenor_labels tm)" for l
      proof -
        from that obtain kr where kr: "kr \<in> set (tenor_plan h tm ?e c)"
          and l: "l = label_of tm (fst kr)"
          using plan_labels [of tm h ?e c, symmetric] by auto
        from filled_cells [OF dl dc mem kr] show ?thesis by (simp add: l cell_val_def)
      qed
      then show ?thesis
        using map_pair_zip [of "tenor_labels tm" "\<lambda>l. cell_val (?g l)" "\<lambda>l. JNum (the (?g l))"]
        by (simp add: comp_def)
    qed
    finally show ?thesis using c labels by (intro exI [of _ ?vs]) simp
  qed
  from labels len rec show ?thesis by (simp add: tenor_labels_def tenor_keys_def)
qed

subsection \<open>The examples, evaluated\<close>

lemma ex_week_date: "weeks_offset (- 1) \<lparr>year = 2024, month = 2, day = 1\<rparr> = \<lparr>year = 2024, month = 1, day = 25\<rparr>"
  by (simp add: weeks_offset_def add_days_def prev_day_def days_in_month_def eval_nat_numeral)

lemma ex_month_date: "months_offset (- 1) \<lparr>year = 2024, month = 2, day = 1\<rparr> = \<lparr>year = 2024, month = 1, day = 1\<rparr>"
  by (simp add: months_offset_def days_in_month_def Let_def)

lemma ex_wf_history: "wf_history ex_history"
  by (simp add: wf_history_def ex_history_def)

lemma ex_wf_tenor: "wf_tenor ex_tenor"
  by (simp add: wf_tenor_def ex_tenor_def labels_ok_def tenor_keys_def tenor_labels_def label_of_def)

lemma ex_sufficient: "sufficient_history ex_history ex_tenor"
  by (simp add: sufficient_history_def ex_history_def ex_tenor_def ex_week_date)

lemma ex_run: "get_returns ex_history ex_tenor = Inr ex_returns"
  by (simp add: get_returns_def get_returns_run_def fill_returns_def ex_history_def ex_tenor_def
      iloc_def column_step_def day_step_def calendar_step_def store_return_def raise_in_def
      offset_return_def calendar_return_def h_loc_def h_series_def getitem_def bindE_def
      set_loc_def ex_week_date ex_month_date build_returns_dict_def to_dict_list_def
      asset_dict_def cell_val_def ex_returns_def Let_def)

lemmas ex_defs = ex_history_def ex_tenor_def ex_returns_def

lemmas get_returns_defs =
  get_returns_def get_returns_run_def fill_returns_def iloc_def column_step_def day_step_def
  calendar_step_def store_return_def raise_in_def offset_return_def calendar_return_def
  h_loc_def h_series_def getitem_def bindE_def set_loc_def build_returns_dict_def
  to_dict_list_def asset_dict_def cell_val_def Let_def


theorem get_returns_calendar_with_fallback_witness:
  "wf_history ex_history \<and> wf_tenor ex_tenor \<and> sufficient_history ex_history ex_tenor \<and>
   0 < length (h_columns ex_history) \<and>
   h_columns ex_history ! 0 = (''A'', [100, 120, 130, 125, 150]) \<and>
   weeks_offset (- 1) (last (h_index ex_history)) \<in> set (h_index ex_history) \<and>
   months_offset (- 1) (last (h_index ex_history)) \<notin> set (h_index ex_history) \<and>
   get_returns ex_history ex_tenor = Inr ex_returns \<and>
   map_of (rd_data ex_returns ! 0) ''1W'' = Some (JNum ((150 - 100) / 100 * 100)) \<and>
   map_of (rd_data ex_returns ! 0) ''1M'' = Some (JNum ((150 - 120) / 120 * 100))"
proof -
  have i: "0 < length (h_columns ex_history)"
    and c: "h_columns ex_history ! 0 = (''A'', [100, 120, 130, 125, 150])"
    by (simp_all add: ex_defs)
  have wd: "weeks_offset (- 1) (last (h_index ex_history)) = \<lparr>year = 2024, month = 1, day = 25\<rparr>"
    and md: "months_offset (- 1) (last (h_index ex_history)) = \<lparr>year = 2024, month = 1, day = 1\<rparr>"
    by (simp_all add: ex_history_def ex_week_date ex_month_date)
  from get_returns_calendar_with_fallback [OF ex_wf_history ex_wf_tenor ex_sufficient i c]
  obtain out where out: "get_returns ex_history ex_tenor = Inr out"
    and w: "\<forall>wk \<in> set (tm_weeks ex_tenor).
       map_of (rd_data out ! 0) (label_of ex_tenor (snd wk)) =
         Some (JNum (claimed_calendar_return ex_history [100, 120, 130, 125, 150]
           (weeks_offset (- fst wk) (last (h_index ex_history))) (snd wk)))"
    and m: "\<forall>wk \<in> set (tm_months ex_tenor).
       map_of (rd_data out ! 0) (label_of ex_tenor (snd wk)) =
         Some (JNum (claimed_calendar_return ex_history [100, 120, 130, 125, 150]
           (months_offset (- fst wk) (last (h_index ex_history))) (snd wk)))"
    by blast
  have o: "out = ex_returns" using out ex_run by simp
  have "map_of (rd_data ex_returns ! 0) ''1W'' = Some (JNum ((150 - 100) / 100 * 100))"
    using w [unfolded o] wd
    by (simp add: ex_tenor_def label_of_def claimed_calendar_return_def pct_change_def ex_history_def)
  moreover have "map_of (rd_data ex_returns ! 0) ''1M'' = Some (JNum ((150 - 120) / 120 * 100))"
    using m [unfolded o] md
    by (simp add: ex_tenor_def label_of_def claimed_calendar_return_def pct_change_def ex_history_def)
  ultimately show ?thesis
    using ex_wf_history ex_wf_tenor ex_sufficient i c ex_run wd md
    by (simp add: ex_history_def)
qed

text \<open>
  Claim C3 as stated fails on a history with rows and no instrument column: no column is
  visited, no lookup is made, and the empty result is returned.
\<close>

theorem get_returns_no_columns_counterexample:
  "wf_history no_column_history \<and> labels_ok ex_tenor \<and> tm_days ex_tenor \<noteq> [] \<and>
   int (length (h_index no_column_history)) \<le> Max (set (tm_days ex_tenor)) \<and>
   get_returns no_column_history ex_tenor = Inr \<lparr>rd_data = [], rd_labels = []\<rparr>"
  by (simp add: no_column_history_def ex_tenor_def wf_history_def labels_ok_def tenor_keys_def
      get_returns_defs)

theorem get_returns_insufficient_history_witness:
  "wf_history short_history \<and> labels_ok ex_tenor \<and> h_columns short_history \<noteq> [] \<and>
   tm_days ex_tenor \<noteq> [] \<and>
   int (length (h_index short_history)) \<le> Max (set (tm_days ex_tenor)) \<and>
   get_returns short_history ex_tenor = Inl IndexError"
proof -
  have 1: "wf_history short_history" by (simp add: short_history_def wf_history_def)
  have 2: "labels_ok ex_tenor" by (simp add: ex_tenor_def labels_ok_def tenor_keys_def)
  have 3: "h_columns short_history \<noteq> []" by (simp add: short_history_def)
  have 4: "tm_days ex_tenor \<noteq> []" by (simp add: ex_tenor_def)
  have 5: "int (length (h_index short_history)) \<le> Max (set (tm_days ex_tenor))"
    by (simp add: short_history_def ex_tenor_def)
  from get_returns_insufficient_history [OF 1 2 3 4 5] 1 2 3 4 5 show ?thesis by simp
qed

text \<open>
  Claim C4 as stated fails in two places: with no instrument column the \<open>labels\<close> list is
  empty although the tenor specification declares three labels, and with a tenor labelled
  \<open>label\<close> the record's \<open>label\<close> field holds a return, not the instrument's name.
\<close>

theorem get_returns_output_shape_counterexample:
  "wf_history no_column_history \<and> wf_tenor ex_tenor \<and>
   tenor_labels ex_tenor = [''1D'', ''1W'', ''1M''] \<and>
   get_returns no_column_history ex_tenor = Inr \<lparr>rd_data = [], rd_labels = []\<rparr> \<and>
   wf_history short_history \<and> wf_tenor label_tenor \<and>
   get_returns short_history label_tenor =
     Inr \<lparr>rd_data = [[(''label'', JNum 0)]], rd_labels = [''label'']\<rparr>"
proof -
  have "get_returns short_history label_tenor =
     Inr \<lparr>rd_data = [[(''label'', JNum 0)]], rd_labels = [''label'']\<rparr>"
    by (simp add: short_history_def label_tenor_def get_returns_defs)
  moreover have "get_returns no_column_history ex_tenor = Inr \<lparr>rd_data = [], rd_labels = []\<rparr>"
    by (simp add: no_column_history_def ex_tenor_def get_returns_defs)
  moreover have "wf_tenor label_tenor"
    by (simp add: wf_tenor_def label_tenor_def labels_ok_def tenor_keys_def tenor_labels_def label_of_def)
  moreover have "tenor_labels ex_tenor = [''1D'', ''1W'', ''1M'']"
    by (simp add: ex_tenor_def tenor_keys_def tenor_labels_def label_of_def)
  ultimately show ?thesis
    using ex_wf_tenor by (simp add: no_column_history_def short_history_def wf_history_def)
qed

theorem get_returns_output_shape_witness:
  "wf_history ex_history \<and> wf_tenor ex_tenor \<and> ''label'' \<notin> set (tenor_labels ex_tenor) \<and>
   h_columns ex_history \<noteq> [] \<and> get_returns ex_history ex_tenor = Inr ex_returns \<and>
   rd_labels ex_returns = [''1D'', ''1W'', ''1M''] \<and>
   length (rd_data ex_returns) = length (h_columns ex_history) \<and>
   rd_data ex_returns ! 1 =
     (''label'', JStr ''B'') # zip (rd_labels ex_returns) (map JNum [- 60, - 80, - 75])"
proof -
  have nl: "''label'' \<notin> set (tenor_labels ex_tenor)"
    by (simp add: ex_tenor_def tenor_keys_def tenor_labels_def label_of_def)
  have ne: "h_columns ex_history \<noteq> []" by (simp add: ex_history_def)
  from get_returns_output_shape [OF ex_wf_history ex_wf_tenor nl ne ex_run]
  have "rd_labels ex_returns =
      map (label_of ex_tenor) (tm_days ex_tenor @ map snd (tm_weeks ex_tenor) @ map snd (tm_months ex_tenor))"
    and "length (rd_data ex_returns) = length (h_columns ex_history)"
    by simp_all
  then show ?thesis
    using ex_wf_history ex_wf_tenor nl ne ex_run
    by (simp add: ex_tenor_def label_of_def ex_returns_def)
qed

section \<open>Properties of get\_tickers\<close>

lemma fold_snoc: "fold (\<lambda>x acc. acc @ [x]) xs acc = acc @ xs"
  by (induction xs arbitrary: acc) auto

lemma fold_snoc_all: "fold (\<lambda>item acc. fold (\<lambda>x acc. acc @ [x]) (f item) acc) items acc =
    acc @ concat (map f items)"
  by (induction items arbitrary: acc) (auto simp: fold_snoc)

lemma fold_snoc_if: "fold (\<lambda>x acc. if P x then acc @ [x] else acc) xs acc = acc @ filter P xs"
  by (induction xs arbitrary: acc) auto

text \<open>
  Claim C10. Whenever the package lists at least one database, \<^verbatim>\<open>get_tickers\<close> returns the
  symbols of the first four databases and of the last one, in the order of enumeration,
  less exactly those whose last four characters are \<open>_CCB\<close>; so no ticker of the result
  ends in \<open>_CCB\<close>.
\<close>

theorem get_tickers_filters_CCB:
  assumes "databases nd \<noteq> []"
  shows "\<exists>ts. get_tickers nd = Inr ts \<and>
    ts = filter (\<lambda>t. last_four t \<noteq> ''_CCB'')
           (concat (map (database_symbols nd) (take 4 (databases nd) @ [last (databases nd)]))) \<and>
    (\<forall>t \<in> set ts. last_four t \<noteq> ''_CCB'')"
proof -
  have "iloc (databases nd) (- 1) = Inr (last (databases nd))"
    using assms by (rule iloc_last)
  then have "get_tickers nd = Inr (filter (\<lambda>t. last_four t \<noteq> ''_CCB'')
           (concat (map (database_symbols nd) (take 4 (databases nd) @ [last (databases nd)]))))"
    by (simp add: get_tickers_def bindE_def Let_def fold_snoc_all fold_snoc_if)
  then show ?thesis by auto
qed

theorem get_tickers_filters_CCB_witness:
  "databases ex_norgate \<noteq> [] \<and>
   get_tickers ex_norgate = Inr [''ES'', ''CCB'', ''GC'', ''GC''] \<and>
   last_four ''ES'' \<noteq> ''_CCB'' \<and> last_four ''CCB'' \<noteq> ''_CCB'' \<and> last_four ''GC'' \<noteq> ''_CCB'' \<and>
   last_four ''ES_CCB'' = ''_CCB'' \<and> last_four ''_CCB'' = ''_CCB''"
proof -
  have ne: "databases ex_norgate \<noteq> []" by (simp add: ex_norgate_def)
  from get_tickers_filters_CCB [OF ne] obtain ts where "get_tickers ex_norgate = Inr ts"
    and "ts = filter (\<lambda>t. last_four t \<noteq> ''_CCB'')
           (concat (map (database_symbols ex_norgate)
              (take 4 (databases ex_norgate) @ [last (databases ex_norgate)])))"
    by blast
  then have "get_tickers ex_norgate = Inr [''ES'', ''CCB'', ''GC'', ''GC'']"
    by (simp add: ex_norgate_def last_four_def)
  then show ?thesis using ne by (simp add: last_four_def)
qed

section \<open>Properties of get\_history\<close>

subsection \<open>Forward fill, then trim\<close>

lemma length_ffill_from [simp]: "length (ffill_from prev xs) = length xs"
  by (induction prev xs rule: ffill_from.induct) auto

lemma last_seen_0: "last_seen (x # xs) 0 = x"
  by (cases x) (auto simp: last_seen_def)

lemma last_seen_Suc:
  "last_seen (x # xs) (Suc i) =
     (case last_seen xs i of None \<Rightarrow> x | Some v \<Rightarrow> Some v)"
proof (cases "filter (\<lambda>x. x \<noteq> None) (rev (take (Suc i) xs))")
  case Nil
  then show ?thesis by (cases x) (simp_all add: last_seen_def)
next
  case (Cons y ys)
  then have "y \<in> set (filter (\<lambda>x. x \<noteq> None) (rev (take (Suc i) xs)))" by simp
  then obtain v where "y = Some v" by auto
  with Cons show ?thesis by (simp add: last_seen_def)
qed

lemma ffill_from_nth:
  "i < length xs \<Longrightarrow>
   ffill_from prev xs ! i = (case last_seen xs i of None \<Rightarrow> prev | Some v \<Rightarrow> Some v)"
proof (induction prev xs arbitrary: i rule: ffill_from.induct)
  case (1 prev)
  then show ?case by simp
next
  case (2 prev xs)
  then show ?case
    by (cases i) (auto simp: last_seen_0 last_seen_Suc split: option.splits)
next
  case (3 prev v xs)
  then show ?case
    by (cases i) (auto simp: last_seen_0 last_seen_Suc split: option.splits)
qed

lemma ffill_nth: "i < length xs \<Longrightarrow> ffill_from None xs ! i = last_seen xs i"
  by (simp add: ffill_from_nth split: option.splits)

lemma set_update_subset: "set (AList.update k v al) \<subseteq> insert (k, v) (set al)"
  by (induction al) auto

lemma length_reindex [simp]: "length (reindex series idx) = length idx"
  by (simp add: reindex_def)

lemma rectangular_set_column: "rectangular (set_column name series t)"
proof -
  define idx where "idx = (if pt_index t = [] \<and> series \<noteq> [] then map fst series else pt_index t)"
  define old where
    "old = map (\<lambda>c. (fst c, reindex (column_series (pt_index t) (snd c)) idx)) (pt_columns t)"
  have eq: "set_column name series t =
      \<lparr>pt_index = idx, pt_columns = AList.update name (reindex series idx) old\<rparr>"
    by (simp add: set_column_def Let_def idx_def old_def)
  have "length (snd c) = length idx" if "c \<in> set (AList.update name (reindex series idx) old)" for c
  proof -
    from that set_update_subset [of name "reindex series idx" old]
    have "c = (name, reindex series idx) \<or> c \<in> set old" by auto
    then show ?thesis by (auto simp: old_def)
  qed
  then show ?thesis by (simp add: eq rectangular_def list_all_iff)
qed

lemma rectangular_concat_column: "rectangular (concat_column u name series t)"
  by (auto simp: rectangular_def concat_column_def Let_def list_all_iff)

lemma rectangular_add_ticker: "rectangular (add_ticker nd u s e ticker t)"
  by (simp add: add_ticker_def Let_def rectangular_set_column rectangular_concat_column)

lemma rectangular_fold:
  "rectangular t \<Longrightarrow> rectangular (fold (add_ticker nd u s e) tickers t)"
  by (induction tickers arbitrary: t) (auto simp: rectangular_add_ticker)

lemma rectangular_collect: "rectangular (collect_history nd u s e tickers)"
  unfolding collect_history_def by (rule rectangular_fold) (simp add: rectangular_def)

lemma dropna_no_missing:
  assumes "c \<in> set (pt_columns (dropna t))"
  shows "None \<notin> set (snd c)"
proof -
  from assms obtain c0 where c0: "c0 \<in> set (pt_columns t)" and c: "snd c = keep_rows t (snd c0)"
    by (auto simp: dropna_def)
  have ok: "snd c0 ! i \<noteq> None" if "row_complete t i" for i
    using that c0 by (auto simp: row_complete_def list_all_iff)
  show ?thesis
  proof
    assume "None \<in> set (snd c)"
    then obtain i where "row_complete t i" and "snd c0 ! i = None"
      by (auto simp: c keep_rows_def)
    with ok [of i] show False by simp
  qed
qed

lemma row_complete_ffill:
  assumes "rectangular t" "i < length (pt_index t)"
  shows "row_complete (ffill t) i \<longleftrightarrow> list_all (\<lambda>c. last_seen (snd c) i \<noteq> None) (pt_columns t)"
  using assms by (auto simp: row_complete_def ffill_def rectangular_def list_all_iff ffill_nth)

lemma filter_upt_cong:
  "(\<And>i. i < n \<Longrightarrow> P i = Q i) \<Longrightarrow> filter P [0..<n] = filter Q [0..<n]"
  by (rule filter_cong) auto

lemma dropna_ffill:
  assumes "rectangular t"
  shows "dropna (ffill t) =
    \<lparr>pt_index = map (\<lambda>i. pt_index t ! i) (rows_with_prices t),
     pt_columns = map (\<lambda>c. (fst c, map (last_seen (snd c)) (rows_with_prices t))) (pt_columns t)\<rparr>"
proof -
  let ?n = "length (pt_index t)"
  have rows: "filter (row_complete (ffill t)) [0..<?n] = rows_with_prices t"
    unfolding rows_with_prices_def
    by (rule filter_upt_cong) (simp add: row_complete_ffill [OF assms])
  have idx: "pt_index (dropna (ffill t)) = map (\<lambda>i. pt_index t ! i) (rows_with_prices t)"
    using rows by (simp add: dropna_def keep_rows_def ffill_def)
  have col: "keep_rows (ffill t) (ffill_from None (snd c)) = map (last_seen (snd c)) (rows_with_prices t)"
    if "c \<in> set (pt_columns t)" for c
  proof -
    have len: "length (snd c) = ?n" using assms that by (simp add: rectangular_def list_all_iff)
    have "i < ?n" if "i \<in> set (rows_with_prices t)" for i
      using that by (simp add: rows_with_prices_def)
    then show ?thesis
      using rows len by (simp add: keep_rows_def ffill_nth)
  qed
  have "pt_columns (dropna (ffill t)) =
      map (\<lambda>c. (fst c, map (last_seen (snd c)) (rows_with_prices t))) (pt_columns t)"
    using col by (simp add: dropna_def ffill_def comp_def)
  with idx show ?thesis by (cases "dropna (ffill t)") simp
qed

text \<open>
  Claim C5. For every list of tickers the table \<^verbatim>\<open>get_history\<close> returns has no missing
  value, and it is the collected table forward-filled first and trimmed second: the rows
  kept are those at which every column has had a price at or above the row, and each kept
  cell holds the last price present at or above it.
\<close>

theorem get_history_filled_then_trimmed:
  "(\<forall>c \<in> set (pt_columns (get_history nd u s e tickers)). None \<notin> set (snd c)) \<and>
   get_history nd u s e tickers = dropna (ffill (collect_history nd u s e tickers)) \<and>
   get_history nd u s e tickers =
     \<lparr>pt_index = map (\<lambda>i. pt_index (collect_history nd u s e tickers) ! i)
                    (rows_with_prices (collect_history nd u s e tickers)),
      pt_columns = map (\<lambda>c. (fst c, map (last_seen (snd c))
                                        (rows_with_prices (collect_history nd u s e tickers))))
                     (pt_columns (collect_history nd u s e tickers))\<rparr>"
proof -
  have 1: "\<forall>c \<in> set (pt_columns (get_history nd u s e tickers)). None \<notin> set (snd c)"
    unfolding get_history_def by (blast dest: dropna_no_missing)
  have 2: "get_history nd u s e tickers = dropna (ffill (collect_history nd u s e tickers))"
    by (simp add: get_history_def)
  show ?thesis
    using 1 2 dropna_ffill [OF rectangular_collect, of nd u s e tickers] by simp
qed

subsection \<open>The example, evaluated\<close>

lemma ex_collect:
  "collect_history ex_norgate append_new_dates ''2024-01-01'' ''2024-01-31'' [''ES'', ''GC''] = ex_collected"
  by (simp add: collect_history_def add_ticker_def set_column_def concat_column_def reindex_def
      column_series_def ex_norgate_def append_new_dates_def ex_collected_def Let_def)

lemma ex_ffill: "ffill ex_collected = ex_filled"
  by (simp add: ffill_def ex_collected_def ex_filled_def)

lemma upt_4: "[0..<4] = [0, 1, 2, 3]"
  by (simp add: upt_rec)

theorem get_history_filled_then_trimmed_witness:
  "get_history ex_norgate append_new_dates ''2024-01-01'' ''2024-01-31'' [''ES'', ''GC''] =
     \<lparr>pt_index = [\<lparr>year = 2024, month = 1, day = 4\<rparr>, \<lparr>year = 2024, month = 1, day = 5\<rparr>],
      pt_columns = [(''ES'', [Some 5, Some 5]), (''GC'', [Some 7, Some 8])]\<rparr> \<and>
   None \<notin> set [Some 5, Some (5::real)] \<and> None \<notin> set [Some 7, Some (8::real)] \<and>
   pt_index (dropna ex_collected) = []"
proof -
  from get_history_filled_then_trimmed
    [of ex_norgate append_new_dates "''2024-01-01''" "''2024-01-31''" "[''ES'', ''GC'']"]
  have "get_history ex_norgate append_new_dates ''2024-01-01'' ''2024-01-31'' [''ES'', ''GC''] =
      dropna (ffill ex_collected)"
    by (simp add: ex_collect)
  also have "\<dots> = \<lparr>pt_index = [\<lparr>year = 2024, month = 1, day = 4\<rparr>, \<lparr>year = 2024, month = 1, day = 5\<rparr>],
      pt_columns = [(''ES'', [Some 5, Some 5]), (''GC'', [Some 7, Some 8])]\<rparr>"
    unfolding ex_ffill
    by (simp add: dropna_def keep_rows_def row_complete_def ex_filled_def upt_4)
  finally show ?thesis
    by (simp add: dropna_def keep_rows_def row_complete_def ex_collected_def upt_4)
qed

section \<open>Properties of parameter construction\<close>



subsection \<open>Deep copies\<close>








subsection \<open>Dictionaries read through the store\<close>






subsection \<open>The parameters constructed\<close>






section \<open>Properties of the stages\<close>

text \<open>
  Claim C8. Once the parameters are constructed, if the value of \<open>source\<close> among them is
  neither \<open>norgate\<close> nor \<open>yahoo\<close>, constructing \<^verbatim>\<open>TrendStrength\<close> raises
  \<^verbatim>\<open>UnboundLocalError\<close>, whatever the other modules would compute: neither preparation stage
  is run, no table is produced, and no later stage is reached.
\<close>

theorem unrecognised_source_fails:
  assumes "init_inputs h g kwargs = Inr (h', default_dict, mappings_ref, params_ref)"
    and "deref h' params_ref = Inr params"
    and "getitem params (KStr ''source'') = Inr source"
    and "source \<noteq> PStr ''norgate''" and "source \<noteq> PStr ''yahoo''"
  shows "TrendStrength_init c h g kwargs = Inl UnboundLocalError"
  using assms by (simp add: TrendStrength_init_def bindE_def read_local_def Let_def)


subsection \<open>The examples, evaluated\<close>


lemma ex_init_inputs:
  "init_inputs ex_heap ex_globals ex_kwargs = Inr (ex_heap_after, PRef 6, PRef 7, PRef 10)"
  by (simp add: init_inputs_def init_params_def bindE_def deref_def getitem_def setitem_def
      ex_heap_def ex_globals_def ex_kwargs_def ex_heap_after_def Let_def)


theorem unrecognised_source_fails_witness:
  "init_inputs ex_heap ex_globals ex_kwargs = Inr (ex_heap_after, PRef 6, PRef 7, PRef 10) \<and>
   deref ex_heap_after (PRef 10) =
     Inr [(KStr ''source'', PStr ''csv''), (KStr ''mkts'', PInt 5), (KStr ''tenor_mappings'', PRef 9)] \<and>
   getitem [(KStr ''source'', PStr ''csv''), (KStr ''mkts'', PInt 5),
            (KStr ''tenor_mappings'', PRef 9 :: string pyval)]
     (KStr ''source'') = Inr (PStr ''csv'') \<and>
   PStr ''csv'' \<noteq> (PStr ''norgate'' :: string pyval) \<and>
   PStr ''csv'' \<noteq> (PStr ''yahoo'' :: string pyval) \<and>
   TrendStrength_init ex_collab ex_heap ex_globals ex_kwargs = Inl UnboundLocalError"
proof -
  have d: "deref ex_heap_after (PRef 10) =
     Inr [(KStr ''source'', PStr ''csv''), (KStr ''mkts'', PInt 5), (KStr ''tenor_mappings'', PRef 9)]"
    by (simp add: deref_def ex_heap_after_def ex_heap_def)
  have s: "getitem [(KStr ''source'', PStr ''csv''), (KStr ''mkts'', PInt 5),
      (KStr ''tenor_mappings'', PRef 9 :: string pyval)] (KStr ''source'') = Inr (PStr ''csv'')"
    by (simp add: getitem_def)
  have n: "PStr ''csv'' \<noteq> (PStr ''norgate'' :: string pyval)"
    and y: "PStr ''csv'' \<noteq> (PStr ''yahoo'' :: string pyval)"
    by simp_all
  from unrecognised_source_fails [OF ex_init_inputs d s n y, of ex_collab] ex_init_inputs d s
  show ?thesis by simp
qed




end
